theory Spec2Isabelle
  imports Complex_Main "HOL-Library.AList" "HOL-Library.Stream" "HOL-Library.Sublist"
begin

section \<open>Values, errors and the process state\<close>

text \<open>
  The payments service keeps every record as the Python dict that \<^verbatim>\<open>json.loads\<close>
  returned for its line. A dict keeps its keys in insertion order and assigning to a key
  replaces the value where the key stands or appends the key at the end, which is what
  \<^const>\<open>AList.update\<close> does on an association list.
\<close>

datatype pyfloat = Finite rat | NaN | PosInf | NegInf

datatype json =
    JNull
  | JBool bool
  | JInt int
  | JFloat pyfloat
  | JStr string
  | JArr "json list"
  | JObj "(string \<times> json) list"

datatype error =
    FileNotFoundError string
  | KeyError string
  | TypeError
  | AttributeError
  | IndexError
  | ValueError string
  | JSONDecodeError string
  | RecursionError
  | EOFError
  | BadGzipFile
  | UnicodeEncodeError
  | UnicodeDecodeError
  | RequestValidationError
  | HTTPException nat string

text \<open>
  What is in the file at \<^verbatim>\<open>FILE_PATH\<close>, as a reader opened with \<^verbatim>\<open>gzip.open\<close> in text
  mode finds it: a complete compressed stream that holds a text (an empty file reads as
  the empty text), or bytes from which the reader gets a text and then an exception, as it
  does from a stream that is cut before its end.
\<close>

datatype file_state = Complete string | Broken string error

text \<open>
  A background writer started by \<^verbatim>\<open>save_data_async\<close>: not yet scheduled; inside the
  \<^verbatim>\<open>with\<close> block, with the next index of the iteration over \<^verbatim>\<open>DATA_CACHE\<close>, the text
  written through its handle so far, and whether it has had the file to itself since it
  opened it; or finished.
\<close>

datatype writer = Created | Writing nat string bool | Finished

text \<open>
  What a step of a writer does to the file is fixed by the buffers of the text layer, of
  the compressor and of the file object, which the model does not hold. The scheduler says
  it for each step: nothing reaches the file, or bytes do and the file then is as given.
\<close>

datatype flush = Buffered | Reaches file_state

text \<open>What the process prints: the two messages of \<^verbatim>\<open>load_data_once\<close>.\<close>

datatype message = Skipping_invalid_line string | Loaded nat

text \<open>
  The state of the process. \<open>DATA_CACHE\<close> is the module's global list; every element is
  a distinct dict object (each comes from its own \<^verbatim>\<open>json.loads\<close> call), so a reference to
  a record is its position in the list, and mutating a record through any reference is an
  update of the list at that position. \<open>payments_file\<close> is the file at \<^verbatim>\<open>FILE_PATH\<close>
  (\<open>None\<close> when it does not exist). \<open>randoms\<close>, \<open>choices\<close> and
  \<open>clock\<close> are the values that the coming calls of \<^verbatim>\<open>random.random()\<close>, of the index
  draw inside \<^verbatim>\<open>random.choice\<close> and of \<^verbatim>\<open>datetime.utcnow().isoformat()\<close> will return.
\<close>

record world =
  DATA_CACHE :: "json list"
  payments_file :: "file_state option"
  randoms :: "rat stream"
  choices :: "nat stream"
  clock :: "string stream"
  threads :: "writer list"
  stdout :: "message list"

type_synonym 'a prog = "world \<Rightarrow> (error + 'a) \<times> world"

definition returnE :: "'a \<Rightarrow> 'a prog" where
  "returnE x w = (Inr x, w)"

definition raiseE :: "error \<Rightarrow> 'a prog" where
  "raiseE e w = (Inl e, w)"

text \<open>Sequencing: an exception ends the computation and keeps the effects made so far.\<close>

definition bindE :: "'a prog \<Rightarrow> ('a \<Rightarrow> 'b prog) \<Rightarrow> 'b prog" where
  "bindE m f w = (case m w of (Inl e, w') \<Rightarrow> (Inl e, w') | (Inr x, w') \<Rightarrow> f x w')"

subsection \<open>Subscripting\<close>

text \<open>\<^verbatim>\<open>v[k]\<close> with a string key: only a dict has string keys.\<close>

fun getitem :: "json \<Rightarrow> string \<Rightarrow> error + json" where
  "getitem (JObj kvs) k = (case map_of kvs k of None \<Rightarrow> Inl (KeyError k) | Some v \<Rightarrow> Inr v)"
| "getitem _ k = Inl TypeError"

text \<open>\<^verbatim>\<open>v[k] = x\<close> with a string key.\<close>

fun setitem :: "json \<Rightarrow> string \<Rightarrow> json \<Rightarrow> error + json" where
  "setitem (JObj kvs) k x = Inr (JObj (AList.update k x kvs))"
| "setitem _ k x = Inl TypeError"

definition record_getitem :: "nat \<Rightarrow> string \<Rightarrow> json prog" where
  "record_getitem i k w = (getitem (DATA_CACHE w ! i) k, w)"

definition record_setitem :: "nat \<Rightarrow> string \<Rightarrow> json \<Rightarrow> unit prog" where
  "record_setitem i k x w =
     (case setitem (DATA_CACHE w ! i) k x of
        Inl e \<Rightarrow> (Inl e, w)
      | Inr r \<Rightarrow> (Inr (), w\<lparr>DATA_CACHE := (DATA_CACHE w)[i := r]\<rparr>))"

subsection \<open>Randomness and time\<close>

definition random_random :: "rat prog" where
  "random_random w = (Inr (shd (randoms w)), w\<lparr>randoms := stl (randoms w)\<rparr>)"

text \<open>
  \<^verbatim>\<open>random.choice(seq)\<close> raises IndexError on an empty sequence and otherwise returns
  \<^verbatim>\<open>seq[randbelow(len(seq))]\<close>; the drawn number is reduced modulo the length, which
  changes nothing for a draw below the length.
\<close>

definition random_choice :: "'a list \<Rightarrow> 'a prog" where
  "random_choice xs w =
     (if xs = [] then (Inl IndexError, w)
      else (Inr (xs ! (shd (choices w) mod length xs)), w\<lparr>choices := stl (choices w)\<rparr>))"

definition utcnow_isoformat :: "string prog" where
  "utcnow_isoformat w = (Inr (shd (clock w)), w\<lparr>clock := stl (clock w)\<rparr>)"

section \<open>The transition simulator\<close>

definition STATUS_TRANSITIONS :: "(string \<times> string list) list" where
  "STATUS_TRANSITIONS = [(''pending'', [''approved'', ''declined''])]"

definition transitions_getitem :: "string \<Rightarrow> string list prog" where
  "transitions_getitem k =
     (case map_of STATUS_TRANSITIONS k of None \<Rightarrow> raiseE (KeyError k) | Some ds \<Rightarrow> returnE ds)"

text \<open>The double that the literal \<^verbatim>\<open>0.3\<close> denotes.\<close>

definition float_0_3 :: rat where
  "float_0_3 = 5404319552844595 / 18014398509481984"

text \<open>
  \<^verbatim>\<open>maybe_update_status(record)\<close>, called on the record at position \<open>i\<close> of the cache.
  \<^verbatim>\<open>and\<close> evaluates its right operand only when the left one holds, so a random number
  is drawn only for a pending record. The function returns the object it was given.
\<close>

definition maybe_update_status :: "nat \<Rightarrow> nat prog" where
  "maybe_update_status i =
     bindE (record_getitem i ''status'') (\<lambda>s.
       if s = JStr ''pending'' then
         bindE random_random (\<lambda>u.
           if u < float_0_3 then
             bindE (transitions_getitem ''pending'') (\<lambda>ds.
             bindE (random_choice ds) (\<lambda>d.
             bindE (record_setitem i ''status'' (JStr d)) (\<lambda>_.
             bindE utcnow_isoformat (\<lambda>t.
             bindE (record_setitem i ''status_updated_at'' (JStr (t @ ''Z''))) (\<lambda>_.
             returnE i)))))
           else returnE i)
       else returnE i)"

text \<open>The status of the record at position \<open>i\<close>, as \<^verbatim>\<open>record["status"]\<close> reads it.\<close>

definition status_at :: "world \<Rightarrow> nat \<Rightarrow> error + json" where
  "status_at w i = getitem (DATA_CACHE w ! i) ''status''"

text \<open>
  The state after the simulator has been called on the records at the positions \<open>js\<close>, one
  call after the other.
\<close>

fun invocations :: "nat list \<Rightarrow> world \<Rightarrow> world" where
  "invocations [] w = w"
| "invocations (i # js) w = invocations js (snd (maybe_update_status i w))"

section \<open>Listing payments\<close>

subsection \<open>String methods\<close>

text \<open>
  A \<^typ>\<open>string\<close> stands for a Python str, character by character in an encoding under
  which one str is a prefix of another exactly when its characters are. What
  \<^verbatim>\<open>str.lower\<close> and \<^verbatim>\<open>str.strip\<close> return depends on the Unicode tables of the
  interpreter: the functions that call them take them as the parameters \<open>lower\<close> and
  \<open>strip\<close>.
\<close>

text \<open>\<^verbatim>\<open>v.startswith(date)\<close> and \<^verbatim>\<open>v.lower()\<close>: only a str has these methods.\<close>

definition startswith_of :: "json \<Rightarrow> string \<Rightarrow> error + bool" where
  "startswith_of v d = (case v of JStr s \<Rightarrow> Inr (prefix d s) | _ \<Rightarrow> Inl AttributeError)"

definition lower_of :: "(string \<Rightarrow> string) \<Rightarrow> json \<Rightarrow> error + string" where
  "lower_of lower v = (case v of JStr s \<Rightarrow> Inr (lower s) | _ \<Rightarrow> Inl AttributeError)"

subsection \<open>The three filters\<close>

text \<open>\<^verbatim>\<open>p["processing_date"].startswith(date)\<close>\<close>

definition date_test :: "string \<Rightarrow> json \<Rightarrow> error + bool" where
  "date_test d p =
     (case getitem p ''processing_date'' of Inl e \<Rightarrow> Inl e | Inr v \<Rightarrow> startswith_of v d)"

text \<open>\<^verbatim>\<open>p["psp_name"].lower() == psp_name.lower()\<close>\<close>

definition psp_name_test :: "(string \<Rightarrow> string) \<Rightarrow> string \<Rightarrow> json \<Rightarrow> error + bool" where
  "psp_name_test lower n p =
     (case getitem p ''psp_name'' of
        Inl e \<Rightarrow> Inl e
      | Inr v \<Rightarrow> (case lower_of lower v of Inl e \<Rightarrow> Inl e | Inr s \<Rightarrow> Inr (s = lower n)))"

text \<open>\<^verbatim>\<open>p["status"].lower() == status.lower()\<close>\<close>

definition status_test :: "(string \<Rightarrow> string) \<Rightarrow> string \<Rightarrow> json \<Rightarrow> error + bool" where
  "status_test lower n p =
     (case getitem p ''status'' of
        Inl e \<Rightarrow> Inl e
      | Inr v \<Rightarrow> (case lower_of lower v of Inl e \<Rightarrow> Inl e | Inr s \<Rightarrow> Inr (s = lower n)))"

text \<open>A list comprehension with a condition that may raise: the first exception ends it.\<close>

fun filterE :: "('a \<Rightarrow> error + bool) \<Rightarrow> 'a list \<Rightarrow> error + 'a list" where
  "filterE t [] = Inr []"
| "filterE t (x # xs) =
     (case t x of
        Inl e \<Rightarrow> Inl e
      | Inr b \<Rightarrow>
         (case filterE t xs of Inl e \<Rightarrow> Inl e | Inr ys \<Rightarrow> Inr (if b then x # ys else ys)))"

text \<open>
  \<^verbatim>\<open>if arg: data = [p for p in data if test(p)]\<close>. \<^verbatim>\<open>None\<close> and the empty string are
  both false. \<open>data\<close> holds references to records of the cache, that is positions.
\<close>

definition filter_step ::
  "(string \<Rightarrow> json \<Rightarrow> error + bool) \<Rightarrow> string option \<Rightarrow> json list \<Rightarrow> nat list \<Rightarrow> error + nat list"
where
  "filter_step t arg cache data =
     (case arg of
        None \<Rightarrow> Inr data
      | Some a \<Rightarrow> if a = [] then Inr data else filterE (\<lambda>i. t a (cache ! i)) data)"

definition filter_data ::
  "(string \<Rightarrow> string) \<Rightarrow> string option \<Rightarrow> string option \<Rightarrow> string option \<Rightarrow>
   json list \<Rightarrow> error + nat list"
where
  "filter_data lower date psp_name status cache =
     (case filter_step date_test date cache [0 ..< length cache] of
        Inl e \<Rightarrow> Inl e
      | Inr d1 \<Rightarrow>
         (case filter_step (psp_name_test lower) psp_name cache d1 of
            Inl e \<Rightarrow> Inl e
          | Inr d2 \<Rightarrow> filter_step (status_test lower) status cache d2))"

subsection \<open>The update loop\<close>

text \<open>
  \<^verbatim>\<open>record["status"] != old_status\<close>. The left operand is either the object that
  \<open>old_status\<close> is (the record was not advanced) or the str just assigned, which then
  differs from the old \<^verbatim>\<open>"pending"\<close>. An object is unequal to itself only when it is the
  float NaN.
\<close>

definition py_ne :: "json \<Rightarrow> json \<Rightarrow> bool" where
  "py_ne new old = (if new = old then new = JFloat NaN else True)"

text \<open>\<^verbatim>\<open>threading.Thread(target=_write, daemon=True).start()\<close>\<close>

definition save_data_async :: "unit prog" where
  "save_data_async w = (Inr (), w\<lparr>threads := threads w @ [Created]\<rparr>)"

fun update_loop :: "nat list \<Rightarrow> bool \<Rightarrow> bool prog" where
  "update_loop [] updated_any = returnE updated_any"
| "update_loop (i # data) updated_any =
     bindE (record_getitem i ''status'') (\<lambda>old_status.
     bindE (maybe_update_status i) (\<lambda>_.
     bindE (record_getitem i ''status'') (\<lambda>new_status.
     update_loop data (if py_ne new_status old_status then True else updated_any))))"

subsection \<open>Slicing and the response\<close>

text \<open>\<^verbatim>\<open>xs[s:e]\<close>: a negative bound counts from the end and every bound is clamped.\<close>

definition py_slice :: "'a list \<Rightarrow> int \<Rightarrow> int \<Rightarrow> 'a list" where
  "py_slice xs s e =
     (let n = int (length xs);
          s' = (if s < 0 then max 0 (s + n) else min s n);
          e' = (if e < 0 then max 0 (e + n) else min e n)
      in take (nat (e' - s')) (drop (nat s') xs))"

definition json_of_optional :: "string option \<Rightarrow> json" where
  "json_of_optional a = (case a of None \<Rightarrow> JNull | Some s \<Rightarrow> JStr s)"

text \<open>
  \<^verbatim>\<open>JSONResponse({...})\<close>. The constructor renders the dict at once, so the records of
  the page appear in the response as they are at that moment, and the rendering can raise:
  ValueError for a float that is NaN or an infinity (it calls \<^verbatim>\<open>json.dumps\<close> with
  \<^verbatim>\<open>allow_nan=False\<close>), UnicodeEncodeError for a str that cannot be encoded. \<open>render\<close>
  stands for this rendering: it gives the exception, or \<open>None\<close> when there is none.
\<close>

definition page_content :: "string option \<Rightarrow> int \<Rightarrow> int \<Rightarrow> json list \<Rightarrow> json" where
  "page_content date page limit records =
     JObj [(''date'', json_of_optional date),
           (''page'', JInt page),
           (''limit'', JInt limit),
           (''count'', JInt (int (length records))),
           (''data'', JArr records)]"

definition JSONResponse :: "(json \<Rightarrow> error option) \<Rightarrow> json \<Rightarrow> error + json" where
  "JSONResponse render content =
     (case render content of None \<Rightarrow> Inr content | Some e \<Rightarrow> Inl e)"

definition response_content ::
  "(json \<Rightarrow> error option) \<Rightarrow> string option \<Rightarrow> int \<Rightarrow> int \<Rightarrow> nat list \<Rightarrow> json prog"
where
  "response_content render date page limit page_data w =
     (JSONResponse render
        (page_content date page limit (map (\<lambda>i. DATA_CACHE w ! i) page_data)), w)"

text \<open>
  \<^verbatim>\<open>get_payments\<close>. The bounds \<^verbatim>\<open>ge=1\<close> and \<^verbatim>\<open>le=100\<close> of the query parameters reject a
  request before the body runs.
\<close>

definition get_payments ::
  "(string \<Rightarrow> string) \<Rightarrow> (json \<Rightarrow> error option) \<Rightarrow>
   string option \<Rightarrow> int \<Rightarrow> int \<Rightarrow> string option \<Rightarrow> string option \<Rightarrow> json prog"
where
  "get_payments lower render date page limit psp_name status =
     (if page < 1 \<or> limit < 1 \<or> 100 < limit then raiseE RequestValidationError
      else
        bindE (\<lambda>w. (filter_data lower date psp_name status (DATA_CACHE w), w)) (\<lambda>data.
        bindE (update_loop data False) (\<lambda>updated_any.
        bindE (if updated_any then save_data_async else returnE ()) (\<lambda>_.
        let start = (page - 1) * limit; stop = page * limit;
            page_data = py_slice data start stop
        in if page_data = [] then raiseE (HTTPException 404 ''No more records'')
           else response_content render date page limit page_data))))"

section \<open>One payment\<close>

text \<open>The loop of \<^verbatim>\<open>get_payment\<close> over the positions still to visit.\<close>

fun get_payment_loop :: "string \<Rightarrow> nat list \<Rightarrow> nat prog" where
  "get_payment_loop txn_id [] = raiseE (HTTPException 404 ''Transaction not found'')"
| "get_payment_loop txn_id (i # rest) =
     bindE (record_getitem i ''id'') (\<lambda>v.
       if v = JStr txn_id then
         bindE (record_getitem i ''status'') (\<lambda>old.
         bindE (maybe_update_status i) (\<lambda>_.
         bindE (record_getitem i ''status'') (\<lambda>new.
         bindE (if py_ne new old then save_data_async else returnE ()) (\<lambda>_.
         returnE i))))
       else get_payment_loop txn_id rest)"

text \<open>\<^verbatim>\<open>get_payment\<close> returns the record object itself, here its position.\<close>

definition get_payment :: "string \<Rightarrow> nat prog" where
  "get_payment txn_id w = get_payment_loop txn_id [0 ..< length (DATA_CACHE w)] w"

section \<open>Loading at startup\<close>

text \<open>
  Reading in text mode: \<^verbatim>\<open>\r\n\<close> and \<^verbatim>\<open>\r\<close> become \<^verbatim>\<open>\n\<close>, and iterating the file
  yields the lines, each with its line end.
\<close>

fun translate_newlines :: "string \<Rightarrow> string" where
  "translate_newlines [] = []"
| "translate_newlines [c] = [if c = CHR 0x0D then CHR 0x0A else c]"
| "translate_newlines (c # d # cs) =
     (if c = CHR 0x0D \<and> d = CHR 0x0A then CHR 0x0A # translate_newlines cs
      else if c = CHR 0x0D then CHR 0x0A # translate_newlines (d # cs)
      else c # translate_newlines (d # cs))"

fun split_lines :: "string \<Rightarrow> string \<Rightarrow> string list" where
  "split_lines cur [] = (if cur = [] then [] else [cur])"
| "split_lines cur (c # cs) =
     (if c = CHR 0x0A then (cur @ [c]) # split_lines [] cs else split_lines (cur @ [c]) cs)"

definition file_lines :: "string \<Rightarrow> string list" where
  "file_lines txt = split_lines [] (translate_newlines txt)"

text \<open>The text that a reader gets from the file before its end or before the exception.\<close>

fun readable :: "file_state \<Rightarrow> string" where
  "readable (Complete txt) = txt"
| "readable (Broken txt e) = txt"

text \<open>
  The body of \<^verbatim>\<open>for line in f\<close>. \<open>strip\<close> stands for \<^verbatim>\<open>str.strip\<close> and \<open>loads\<close> for
  \<^verbatim>\<open>json.loads\<close>, which returns a value or raises. The \<^verbatim>\<open>except\<close> clause catches
  JSONDecodeError only: any other exception of \<^verbatim>\<open>json.loads\<close>, such as the ValueError
  for an integer of more than 4300 digits or a RecursionError, ends the loop and the load.
\<close>

fun load_lines ::
  "(string \<Rightarrow> string) \<Rightarrow> (string \<Rightarrow> error + json) \<Rightarrow> string list \<Rightarrow> unit prog"
where
  "load_lines strip loads [] w = (Inr (), w)"
| "load_lines strip loads (l # ls) w =
     (let line = strip l in
      if line = [] then load_lines strip loads ls w
      else
        (case loads line of
           Inr v \<Rightarrow> load_lines strip loads ls (w\<lparr>DATA_CACHE := DATA_CACHE w @ [v]\<rparr>)
         | Inl (JSONDecodeError e) \<Rightarrow>
             load_lines strip loads ls (w\<lparr>stdout := stdout w @ [Skipping_invalid_line e]\<rparr>)
         | Inl e \<Rightarrow> (Inl e, w)))"

text \<open>
  \<^verbatim>\<open>load_data_once\<close>. When the reader meets the exception of a broken file, the lines
  read before it have been handled and the exception ends the load.
\<close>

definition load_data_once ::
  "(string \<Rightarrow> string) \<Rightarrow> (string \<Rightarrow> error + json) \<Rightarrow> unit prog"
where
  "load_data_once strip loads w0 =
     (let w = w0\<lparr>DATA_CACHE := []\<rparr> in
      case payments_file w of
        None \<Rightarrow> (Inl (FileNotFoundError ''File not found: payments.jsonl.gz''), w)
      | Some f \<Rightarrow>
          (case load_lines strip loads (file_lines (readable f)) w of
             (Inl e, w') \<Rightarrow> (Inl e, w')
           | (Inr u, w') \<Rightarrow>
               (case f of
                  Broken txt e \<Rightarrow> (Inl e, w')
                | Complete txt \<Rightarrow>
                    (Inr (), w'\<lparr>stdout := stdout w' @ [Loaded (length (DATA_CACHE w'))]\<rparr>))))"

section \<open>The background writers\<close>

text \<open>A writer that has the file open loses it to itself when another one writes to it.\<close>

fun disturbed :: "writer \<Rightarrow> writer" where
  "disturbed (Writing k txt alone) = Writing k txt False"
| "disturbed Created = Created"
| "disturbed Finished = Finished"

text \<open>A stream that is not closed yet has no end: its reader ends with an exception.\<close>

fun unfinished :: "file_state \<Rightarrow> file_state" where
  "unfinished (Complete txt) = Broken txt EOFError"
| "unfinished (Broken txt e) = Broken txt e"

text \<open>
  One step of the thread at position \<open>t\<close> running \<^verbatim>\<open>_write\<close>. \<open>dumps\<close> stands for
  \<^verbatim>\<open>json.dumps\<close>.
  \<^item> Opening the file in mode \<^verbatim>\<open>"wt"\<close> empties it.
  \<^item> Each pass of the loop writes the line of the next record of \<^verbatim>\<open>DATA_CACHE\<close>, as it
    is then, into the buffers. When bytes reach the file, the file of a writer that has it
    to itself holds a stream without its end; what the file holds when several writers have
    written to it is what the scheduler says.
  \<^item> Leaving the \<^verbatim>\<open>with\<close> block closes the file: the stream of a writer that has had the
    file to itself is then complete and holds the text it has written.
\<close>

definition thread_step :: "(json \<Rightarrow> string) \<Rightarrow> nat \<times> flush \<Rightarrow> world \<Rightarrow> world" where
  "thread_step dumps step w =
     (let t = fst step; fl = snd step in
      if t < length (threads w) then
        (case threads w ! t of
           Created \<Rightarrow>
             w\<lparr>payments_file := Some (Complete []),
               threads := (map disturbed (threads w))[t := Writing 0 [] True]\<rparr>
         | Writing k txt alone \<Rightarrow>
             if k < length (DATA_CACHE w) then
               (let txt' = txt @ dumps (DATA_CACHE w ! k) @ [CHR 0x0A] in
                case fl of
                  Buffered \<Rightarrow> w\<lparr>threads := (threads w)[t := Writing (Suc k) txt' alone]\<rparr>
                | Reaches f \<Rightarrow>
                    w\<lparr>payments_file := Some (if alone then unfinished f else f),
                      threads := (map disturbed (threads w))[t := Writing (Suc k) txt' alone]\<rparr>)
             else
               w\<lparr>payments_file :=
                    (if alone then Some (Complete txt)
                     else (case fl of Buffered \<Rightarrow> payments_file w | Reaches f \<Rightarrow> Some f)),
                 threads := (map disturbed (threads w))[t := Finished]\<rparr>
         | Finished \<Rightarrow> w)
      else w)"

text \<open>The threads take their steps in the order the scheduler picks them.\<close>

fun schedule :: "(json \<Rightarrow> string) \<Rightarrow> (nat \<times> flush) list \<Rightarrow> world \<Rightarrow> world" where
  "schedule dumps [] w = w"
| "schedule dumps (step # steps) w = schedule dumps steps (thread_step dumps step w)"

text \<open>\<open>k\<close> calls of \<^verbatim>\<open>save_data_async\<close> in a row.\<close>

fun requests :: "nat \<Rightarrow> world \<Rightarrow> world" where
  "requests 0 w = w"
| "requests (Suc k) w = requests k (snd (save_data_async w))"

text \<open>The writers that have opened the file and not closed it yet.\<close>

fun in_flight :: "writer list \<Rightarrow> nat" where
  "in_flight [] = 0"
| "in_flight (Created # ws) = in_flight ws"
| "in_flight (Writing k txt alone # ws) = Suc (in_flight ws)"
| "in_flight (Finished # ws) = in_flight ws"


section \<open>Payment records and the example store\<close>

text \<open>
  A payment record has the four fields that the service reads, each a string; it may have
  any other field.
\<close>

definition is_str :: "error + json \<Rightarrow> bool" where
  "is_str x = (case x of Inr (JStr s) \<Rightarrow> True | _ \<Rightarrow> False)"

definition payment_record :: "json \<Rightarrow> bool" where
  "payment_record r =
     (is_str (getitem r ''id'') \<and> is_str (getitem r ''processing_date'') \<and>
      is_str (getitem r ''psp_name'') \<and> is_str (getitem r ''status''))"

definition payment_store :: "json list \<Rightarrow> bool" where
  "payment_store cache = list_all payment_record cache"

text \<open>Three records: \<open>t1\<close> pending, \<open>t2\<close> approved, \<open>t3\<close> pending.\<close>

definition scenario_cache :: "json list" where
  "scenario_cache =
     [JObj [(''id'', JStr ''t1''), (''processing_date'', JStr ''2025-01-01T10:00:00''),
            (''psp_name'', JStr ''Stripe''), (''status'', JStr ''pending''),
            (''amount'', JInt 120)],
      JObj [(''id'', JStr ''t2''), (''processing_date'', JStr ''2025-01-02T11:30:00''),
            (''psp_name'', JStr ''Adyen''), (''status'', JStr ''approved''),
            (''amount'', JInt 75)],
      JObj [(''id'', JStr ''t3''), (''processing_date'', JStr ''2025-01-02T12:45:00''),
            (''psp_name'', JStr ''stripe''), (''status'', JStr ''pending''),
            (''amount'', JInt 310)]]"

text \<open>
  A state of the process with this store. The first and the third draw of
  \<^verbatim>\<open>random.random()\<close> are below 0.3, the second is not.
\<close>

definition scenario_world :: world where
  "scenario_world =
     \<lparr>DATA_CACHE = scenario_cache,
      payments_file = None,
      randoms = [1 / 8, 7 / 8] @- sconst (1 / 4),
      choices = sconst 1,
      clock = sconst ''2025-01-03T09:00:00'',
      threads = [],
      stdout = []\<rparr>"

section \<open>Notions used in the statements\<close>

text \<open>The dict of a pending record after the two assignments of an advance.\<close>

definition advanced :: "world \<Rightarrow> (string \<times> json) list \<Rightarrow> (string \<times> json) list" where
  "advanced w kvs =
     AList.update ''status_updated_at'' (JStr (shd (clock w) @ ''Z''))
       (AList.update ''status''
          (JStr ([''approved'', ''declined''] ! (shd (choices w) mod 2))) kvs)"

text \<open>Whether the status of one of the records at the positions \<open>data\<close> differs in \<open>w'\<close>.\<close>

definition status_changed :: "world \<Rightarrow> world \<Rightarrow> nat list \<Rightarrow> bool" where
  "status_changed w w' data = list_ex (\<lambda>i. status_at w' i \<noteq> status_at w i) data"

text \<open>
  The three predicates of the specification: the date is a prefix of the processing date;
  the PSP name, and the status, are equal up to case, that is equal once \<^verbatim>\<open>str.lower\<close>
  has been applied to both.
\<close>

definition date_matches :: "string \<Rightarrow> json \<Rightarrow> bool" where
  "date_matches d r =
     (case getitem r ''processing_date'' of Inr (JStr s) \<Rightarrow> prefix d s | _ \<Rightarrow> False)"

definition psp_name_matches :: "(string \<Rightarrow> string) \<Rightarrow> string \<Rightarrow> json \<Rightarrow> bool" where
  "psp_name_matches lower n r =
     (case getitem r ''psp_name'' of Inr (JStr s) \<Rightarrow> lower s = lower n | _ \<Rightarrow> False)"

definition status_matches :: "(string \<Rightarrow> string) \<Rightarrow> string \<Rightarrow> json \<Rightarrow> bool" where
  "status_matches lower n r =
     (case getitem r ''status'' of Inr (JStr s) \<Rightarrow> lower s = lower n | _ \<Rightarrow> False)"

text \<open>A record satisfies every predicate whose filter the request carries.\<close>

definition satisfies_supplied ::
  "(string \<Rightarrow> string) \<Rightarrow> string option \<Rightarrow> string option \<Rightarrow> string option \<Rightarrow> json \<Rightarrow> bool"
where
  "satisfies_supplied lower date psp_name status r =
     ((case date of None \<Rightarrow> True | Some d \<Rightarrow> date_matches d r) \<and>
      (case psp_name of None \<Rightarrow> True | Some n \<Rightarrow> psp_name_matches lower n r) \<and>
      (case status of None \<Rightarrow> True | Some n \<Rightarrow> status_matches lower n r))"

text \<open>The same, with a filter that is the empty string counted as not supplied.\<close>

definition satisfies_nonempty ::
  "(string \<Rightarrow> string) \<Rightarrow> string option \<Rightarrow> string option \<Rightarrow> string option \<Rightarrow> json \<Rightarrow> bool"
where
  "satisfies_nonempty lower date psp_name status r =
     ((case date of None \<Rightarrow> True | Some d \<Rightarrow> d = [] \<or> date_matches d r) \<and>
      (case psp_name of None \<Rightarrow> True | Some n \<Rightarrow> n = [] \<or> psp_name_matches lower n r) \<and>
      (case status of None \<Rightarrow> True | Some n \<Rightarrow> n = [] \<or> status_matches lower n r))"

text \<open>
  For the examples: \<^verbatim>\<open>str.lower\<close> on text of ASCII characters, and the rendering of a
  response whose strings can all be encoded, which raises exactly when a float in it is
  NaN or an infinity.
\<close>

definition ascii_lower_char :: "char \<Rightarrow> char" where
  "ascii_lower_char c =
     (let n = (of_char c :: nat) in if 65 \<le> n \<and> n \<le> 90 then char_of (n + 32) else c)"

definition ascii_lower :: "string \<Rightarrow> string" where
  "ascii_lower s = map ascii_lower_char s"

fun nonfinite :: "json \<Rightarrow> bool" where
  "nonfinite (JFloat f) = (case f of Finite x \<Rightarrow> False | _ \<Rightarrow> True)"
| "nonfinite (JArr vs) = list_ex nonfinite vs"
| "nonfinite (JObj kvs) = list_ex (\<lambda>kv. nonfinite (snd kv)) kvs"
| "nonfinite _ = False"

definition render_ascii :: "json \<Rightarrow> error option" where
  "render_ascii content =
     (if nonfinite content
      then Some (ValueError ''Out of range float values are not JSON compliant'')
      else None)"

text \<open>The first record of the scenario with a field that is NaN.\<close>

definition nan_world :: world where
  "nan_world =
     scenario_world\<lparr>DATA_CACHE :=
       [JObj [(''id'', JStr ''t1''), (''processing_date'', JStr ''2025-01-01T10:00:00''),
              (''psp_name'', JStr ''Stripe''), (''status'', JStr ''approved''),
              (''rate'', JFloat NaN)]]\<rparr>"

text \<open>The scenario with every draw of \<^verbatim>\<open>random.random()\<close> below 0.3.\<close>

definition eager_world :: world where
  "eager_world = scenario_world\<lparr>randoms := sconst (1 / 8)\<rparr>"

text \<open>The value under a key of a successful response.\<close>

definition response_field :: "string \<Rightarrow> error + json \<Rightarrow> error + json" where
  "response_field k r = (case r of Inl e \<Rightarrow> Inl e | Inr body \<Rightarrow> getitem body k)"

section \<open>Notions and examples for the file\<close>

text \<open>
  A line makes the load stop when it is not blank and \<^verbatim>\<open>json.loads\<close> raises on it
  another exception than JSONDecodeError.
\<close>

definition stops :: "(string \<Rightarrow> string) \<Rightarrow> (string \<Rightarrow> error + json) \<Rightarrow> string \<Rightarrow> bool" where
  "stops strip loads l =
     (strip l \<noteq> [] \<and>
      (case loads (strip l) of Inr v \<Rightarrow> False | Inl (JSONDecodeError e) \<Rightarrow> False | Inl e \<Rightarrow> True))"

text \<open>
  What a load makes of lines: the values of the lines that are not blank and decode, and
  the messages for those that are not blank and on which JSONDecodeError is raised.
\<close>

definition decoded ::
  "(string \<Rightarrow> string) \<Rightarrow> (string \<Rightarrow> error + json) \<Rightarrow> string list \<Rightarrow> json list"
where
  "decoded strip loads ls =
     concat (map (\<lambda>l. case loads (strip l) of Inr v \<Rightarrow> [v] | Inl e \<Rightarrow> [])
               (filter (\<lambda>l. strip l \<noteq> []) ls))"

definition warnings ::
  "(string \<Rightarrow> string) \<Rightarrow> (string \<Rightarrow> error + json) \<Rightarrow> string list \<Rightarrow> message list"
where
  "warnings strip loads ls =
     concat (map (\<lambda>l. case loads (strip l) of
                        Inl (JSONDecodeError e) \<Rightarrow> [Skipping_invalid_line e]
                      | _ \<Rightarrow> [])
               (filter (\<lambda>l. strip l \<noteq> []) ls))"

text \<open>
  For the examples: \<^verbatim>\<open>str.strip\<close> on text of ASCII characters, whose white space is
  the characters 9 to 13 and 28 to 32.
\<close>

definition ascii_isspace :: "char \<Rightarrow> bool" where
  "ascii_isspace c =
     (let n = (of_char c :: nat) in (9 \<le> n \<and> n \<le> 13) \<or> (28 \<le> n \<and> n \<le> 32))"

definition ascii_strip :: "string \<Rightarrow> string" where
  "ascii_strip s = rev (dropWhile ascii_isspace (rev (dropWhile ascii_isspace s)))"

text \<open>
  \<^verbatim>\<open>json.loads\<close> and \<^verbatim>\<open>json.dumps\<close> on the lines and the records of the examples. On a
  line of 4301 digits \<^verbatim>\<open>json.loads\<close> raises the ValueError of the conversion of
  integers, whose limit is 4300 digits.
\<close>

definition isdigit :: "char \<Rightarrow> bool" where
  "isdigit c = (let n = (of_char c :: nat) in 48 \<le> n \<and> n \<le> 57)"

definition sample_loads :: "string \<Rightarrow> error + json" where
  \<open>sample_loads l =
     (if length l = 4301 \<and> list_all isdigit l
      then Inl (ValueError ''Exceeds the limit (4300 digits) for integer string conversion: value has 4301 digits; use sys.set_int_max_str_digits() to increase the limit'')
      else if l = ''{"id": "t1"}'' then Inr (JObj [(''id'', JStr ''t1'')])
      else if l = ''{"id": "t2"}'' then Inr (JObj [(''id'', JStr ''t2'')])
      else Inl (JSONDecodeError ''Expecting value: line 1 column 1 (char 0)''))\<close>

definition sample_dumps :: "json \<Rightarrow> string" where
  \<open>sample_dumps r =
     (if r = JObj [(''id'', JStr ''t1'')] then ''{"id": "t1"}''
      else if r = JObj [(''id'', JStr ''t2'')] then ''{"id": "t2"}''
      else ''null'')\<close>

text \<open>
  A file of four lines: a record, a blank line, a line that is not JSON and ends in
  \<^verbatim>\<open>\r\n\<close>, and a record between spaces.
\<close>

definition sample_text :: string where
  \<open>sample_text =
     ''{"id": "t1"}'' @ [CHR 0x0A, CHR 0x0A] @ ''not json'' @ [CHR 0x0D, CHR 0x0A] @
     ''  {"id": "t2"} '' @ [CHR 0x0A]\<close>

text \<open>A file of three lines: a record, an integer of 4301 digits, and a record.\<close>

definition big_integer :: string where
  "big_integer = replicate 4301 (CHR ''1'')"

definition big_text :: string where
  \<open>big_text =
     ''{"id": "t1"}'' @ [CHR 0x0A] @ big_integer @ [CHR 0x0A] @ ''{"id": "t2"}'' @ [CHR 0x0A]\<close>

definition sample_records :: "json list" where
  "sample_records = [JObj [(''id'', JStr ''t1'')], JObj [(''id'', JStr ''t2'')]]"

text \<open>A state whose cache holds two records and whose file holds their two lines.\<close>

definition stored_world :: world where
  \<open>stored_world =
     scenario_world\<lparr>DATA_CACHE := sample_records,
       payments_file :=
         Some (Complete (''{"id": "t1"}'' @ [CHR 0x0A] @ ''{"id": "t2"}'' @ [CHR 0x0A]))\<rparr>\<close>

text \<open>The text of a complete write of the records \<open>rs\<close>.\<close>

definition serialized :: "(json \<Rightarrow> string) \<Rightarrow> json list \<Rightarrow> string" where
  "serialized dumps rs = concat (map (\<lambda>r. dumps r @ [CHR 0x0A]) rs)"

text \<open>
  The file of a write that has started and is not finished: empty, or a stream that its
  reader cannot read to the end.
\<close>

fun incomplete :: "file_state option \<Rightarrow> bool" where
  "incomplete (Some (Complete txt)) = (txt = [])"
| "incomplete (Some (Broken txt e)) = True"
| "incomplete None = False"

text \<open>The steps of the thread \<open>t\<close> alone, one for each entry of \<open>fls\<close>.\<close>

definition steps_of :: "nat \<Rightarrow> flush list \<Rightarrow> (nat \<times> flush) list" where
  "steps_of t fls = map (Pair t) fls"

text \<open>
  The threads \<open>ts\<close> one after the other, each with the \<open>n + 2\<close> steps of a write of \<open>n\<close>
  records: the opening, one for each record, and the closing.
\<close>

definition one_by_one :: "nat \<Rightarrow> flush \<Rightarrow> nat list \<Rightarrow> (nat \<times> flush) list" where
  "one_by_one n fl ts = concat (map (\<lambda>t. replicate (n + 2) (t, fl)) ts)"

section \<open>Properties of the simulator\<close>

lemmas prog_defs = bindE_def returnE_def raiseE_def record_getitem_def record_setitem_def
  random_random_def random_choice_def utcnow_isoformat_def transitions_getitem_def
  STATUS_TRANSITIONS_def

lemma getitem_Inr_obj: "getitem r k = Inr v \<Longrightarrow> \<exists>kvs. r = JObj kvs \<and> map_of kvs k = Some v"
  by (cases r) (auto split: option.splits)

lemma mus_not_pending:
  "status_at w i \<noteq> Inr (JStr ''pending'') \<Longrightarrow>
   maybe_update_status i w = (map_sum id (\<lambda>_. i) (status_at w i), w)"
  by (simp add: maybe_update_status_def status_at_def prog_defs split: sum.splits)

lemma mus_pending_stay:
  "status_at w i = Inr (JStr ''pending'') \<Longrightarrow> \<not> shd (randoms w) < float_0_3 \<Longrightarrow>
   maybe_update_status i w = (Inr i, w\<lparr>randoms := stl (randoms w)\<rparr>)"
  by (simp add: maybe_update_status_def status_at_def prog_defs split: sum.splits)

lemma mus_pending_advance:
  assumes "DATA_CACHE w ! i = JObj kvs" "map_of kvs ''status'' = Some (JStr ''pending'')"
    "shd (randoms w) < float_0_3" "i < length (DATA_CACHE w)"
  shows "maybe_update_status i w =
    (Inr i, w\<lparr>randoms := stl (randoms w), choices := stl (choices w), clock := stl (clock w),
       DATA_CACHE := (DATA_CACHE w)[i := JObj (advanced w kvs)]\<rparr>)"
  using assms
  by (simp add: maybe_update_status_def status_at_def prog_defs numeral_2_eq_2 advanced_def
      split: sum.splits)

lemma mus_absorbing:
  "status_at w i \<noteq> Inr (JStr ''pending'') \<Longrightarrow> snd (maybe_update_status i w) = w"
  by (simp add: mus_not_pending)

lemma choice_dest:
  "[''approved'', ''declined''] ! (n mod 2) = ''approved'' \<or>
   [''approved'', ''declined''] ! (n mod 2) = ''declined''"
proof -
  have "n mod 2 = 0 \<or> n mod 2 = 1" by arith
  then show ?thesis by auto
qed

lemma choice_not_pending: "[''approved'', ''declined''] ! (n mod 2) \<noteq> ''pending''"
  using choice_dest [of n] by auto

lemma map_of_advanced:
  "map_of (advanced w kvs) k =
     (if k = ''status_updated_at'' then Some (JStr (shd (clock w) @ ''Z''))
      else if k = ''status'' then Some (JStr ([''approved'', ''declined''] ! (shd (choices w) mod 2)))
      else map_of kvs k)"
  by (simp add: advanced_def update_conv')

text \<open>The four ways a call can go.\<close>

lemma mus_cases:
  assumes "i < length (DATA_CACHE w)"
  obtains (error) e where "status_at w i = Inl e" "maybe_update_status i w = (Inl e, w)"
  | (other) s where "status_at w i = Inr s" "s \<noteq> JStr ''pending''" "maybe_update_status i w = (Inr i, w)"
  | (stay) "status_at w i = Inr (JStr ''pending'')" "\<not> shd (randoms w) < float_0_3"
      "maybe_update_status i w = (Inr i, w\<lparr>randoms := stl (randoms w)\<rparr>)"
  | (advance) kvs where "DATA_CACHE w ! i = JObj kvs" "map_of kvs ''status'' = Some (JStr ''pending'')"
      "shd (randoms w) < float_0_3"
      "maybe_update_status i w =
        (Inr i, w\<lparr>randoms := stl (randoms w), choices := stl (choices w), clock := stl (clock w),
           DATA_CACHE := (DATA_CACHE w)[i := JObj (advanced w kvs)]\<rparr>)"
proof (cases "status_at w i")
  case (Inl e)
  then have "maybe_update_status i w = (Inl e, w)" by (simp add: mus_not_pending)
  with Inl show ?thesis by (rule error)
next
  case (Inr s)
  show ?thesis
  proof (cases "s = JStr ''pending''")
    case False
    with Inr have "maybe_update_status i w = (Inr i, w)" by (simp add: mus_not_pending)
    with Inr False show ?thesis by (rule other)
  next
    case True
    with Inr have p: "status_at w i = Inr (JStr ''pending'')" by simp
    then obtain kvs where kvs: "DATA_CACHE w ! i = JObj kvs" "map_of kvs ''status'' = Some (JStr ''pending'')"
      unfolding status_at_def by (blast dest: getitem_Inr_obj)
    show ?thesis
    proof (cases "shd (randoms w) < float_0_3")
      case False
      with p show ?thesis by (intro stay) (simp_all add: mus_pending_stay)
    next
      case True
      with kvs assms show ?thesis by (intro advance [of kvs]) (simp_all add: mus_pending_advance)
    qed
  qed
qed


lemma mus_status_other:
  assumes "status_at w j \<noteq> Inr (JStr ''pending'') \<or> j \<noteq> i"
  shows "status_at (snd (maybe_update_status i w)) j = status_at w j"
proof (cases "status_at w i = Inr (JStr ''pending'')")
  case False
  then show ?thesis by (simp add: mus_absorbing)
next
  case True
  with assms have ji: "j \<noteq> i" by auto
  from True obtain kvs where kvs: "DATA_CACHE w ! i = JObj kvs"
      "map_of kvs ''status'' = Some (JStr ''pending'')"
    unfolding status_at_def by (blast dest: getitem_Inr_obj)
  have "DATA_CACHE (snd (maybe_update_status i w)) ! j = DATA_CACHE w ! j"
    using kvs ji
    by (simp add: maybe_update_status_def prog_defs split: sum.splits prod.splits)
  then show ?thesis by (simp add: status_at_def)
qed

lemma invocations_absorbing:
  "status_at w i \<noteq> Inr (JStr ''pending'') \<Longrightarrow> status_at (invocations js w) i = status_at w i"
  by (induction js arbitrary: w) (simp_all add: mus_status_other)

lemma invocations_untouched:
  "i \<notin> set js \<Longrightarrow> status_at (invocations js w) i = status_at w i"
  by (induction js arbitrary: w) (simp_all add: mus_status_other)

lemma is_strE: "is_str x \<Longrightarrow> \<exists>s. x = Inr (JStr s)"
  by (auto simp: is_str_def split: sum.splits json.splits)

lemma payment_record_fields:
  assumes "payment_record r"
  obtains a b c d where "getitem r ''id'' = Inr (JStr a)" "getitem r ''processing_date'' = Inr (JStr b)"
    "getitem r ''psp_name'' = Inr (JStr c)" "getitem r ''status'' = Inr (JStr d)"
  using assms unfolding payment_record_def by (blast dest: is_strE)

lemma tests_payment_record:
  assumes "payment_record r"
  shows "date_test d r = Inr (date_matches d r)"
    and "psp_name_test lower n r = Inr (psp_name_matches lower n r)"
    and "status_test lower n r = Inr (status_matches lower n r)"
  using assms
  by (auto elim!: payment_record_fields
      simp: date_test_def psp_name_test_def status_test_def date_matches_def psp_name_matches_def
        status_matches_def startswith_of_def lower_of_def)

lemma filterE_total: "(\<And>x. x \<in> set xs \<Longrightarrow> t x = Inr (p x)) \<Longrightarrow> filterE t xs = Inr (filter p xs)"
  by (induction xs) auto

lemma payment_store_nth: "payment_store cache \<Longrightarrow> i < length cache \<Longrightarrow> payment_record (cache ! i)"
  by (simp add: payment_store_def list_all_length)

lemma filter_step_total:
  assumes "payment_store cache" "\<And>i. i \<in> set data \<Longrightarrow> i < length cache"
    "\<And>a r. payment_record r \<Longrightarrow> t a r = Inr (p a r)"
  shows "filter_step t arg cache data =
      Inr (filter (\<lambda>i. case arg of None \<Rightarrow> True | Some a \<Rightarrow> a = [] \<or> p a (cache ! i)) data)"
proof (cases arg)
  case None
  then show ?thesis by (simp add: filter_step_def)
next
  case (Some a)
  show ?thesis
  proof (cases "a = []")
    case True
    with Some show ?thesis by (simp add: filter_step_def)
  next
    case False
    have "filterE (\<lambda>i. t a (cache ! i)) data = Inr (filter (\<lambda>i. p a (cache ! i)) data)"
      using assms by (intro filterE_total) (simp add: payment_store_nth)
    with Some False show ?thesis by (simp add: filter_step_def)
  qed
qed

lemma filter_data_total:
  assumes "payment_store cache"
  shows "filter_data lower date psp_name status cache =
     Inr (filter (\<lambda>i. satisfies_nonempty lower date psp_name status (cache ! i)) [0 ..< length cache])"
proof -
  let ?P1 = "\<lambda>i. case date of None \<Rightarrow> True | Some a \<Rightarrow> a = [] \<or> date_matches a (cache ! i)"
  let ?P2 = "\<lambda>i. case psp_name of None \<Rightarrow> True | Some a \<Rightarrow> a = [] \<or> psp_name_matches lower a (cache ! i)"
  let ?P3 = "\<lambda>i. case status of None \<Rightarrow> True | Some a \<Rightarrow> a = [] \<or> status_matches lower a (cache ! i)"
  let ?d0 = "[0 ..< length cache]"
  have 1: "filter_step date_test date cache ?d0 = Inr (filter ?P1 ?d0)"
    using assms by (intro filter_step_total) (simp_all add: tests_payment_record)
  have 2: "filter_step (psp_name_test lower) psp_name cache (filter ?P1 ?d0) = Inr (filter ?P2 (filter ?P1 ?d0))"
    using assms by (intro filter_step_total) (simp_all add: tests_payment_record)
  have 3: "filter_step (status_test lower) status cache (filter ?P2 (filter ?P1 ?d0))
      = Inr (filter ?P3 (filter ?P2 (filter ?P1 ?d0)))"
    using assms by (intro filter_step_total) (simp_all add: tests_payment_record)
  have "filter ?P3 (filter ?P2 (filter ?P1 ?d0)) =
      filter (\<lambda>i. satisfies_nonempty lower date psp_name status (cache ! i)) ?d0"
    by (auto simp: satisfies_nonempty_def intro: filter_cong)
  with 1 2 3 show ?thesis by (simp add: filter_data_def)
qed

lemma payment_record_advanced:
  "payment_record (JObj kvs) \<Longrightarrow> payment_record (JObj (advanced w kvs))"
  by (simp add: payment_record_def map_of_advanced is_str_def)

lemma payment_store_update:
  "payment_store cache \<Longrightarrow> payment_record r \<Longrightarrow> payment_store (cache[i := r])"
  by (cases "i < length cache") (auto simp: payment_store_def list_all_length nth_list_update)

lemma mus_payment_store:
  assumes "payment_store (DATA_CACHE w)" "i < length (DATA_CACHE w)"
  shows "fst (maybe_update_status i w) = Inr i \<and>
         payment_store (DATA_CACHE (snd (maybe_update_status i w))) \<and>
         length (DATA_CACHE (snd (maybe_update_status i w))) = length (DATA_CACHE w)"
  using assms(2)
proof (cases rule: mus_cases)
  case (error e)
  from payment_store_nth [OF assms] have "is_str (status_at w i)"
    by (simp add: payment_record_def status_at_def)
  with error show ?thesis by (simp add: is_str_def)
next
  case (other s)
  with assms show ?thesis by simp
next
  case stay
  with assms show ?thesis by simp
next
  case (advance kvs)
  from payment_store_nth [OF assms] advance(1) have "payment_record (JObj (advanced w kvs))"
    by (simp add: payment_record_advanced)
  with advance(4) assms show ?thesis by (simp add: payment_store_update)
qed

lemma mus_status_change:
  assumes "i < length (DATA_CACHE w)"
    "status_at (snd (maybe_update_status i w)) i \<noteq> status_at w i"
  shows "status_at w i = Inr (JStr ''pending'') \<and>
         status_at (snd (maybe_update_status i w)) i \<noteq> Inr (JStr ''pending'')"
  using assms(1)
proof (cases rule: mus_cases)
  case (advance kvs)
  then show ?thesis
    using assms(1) choice_not_pending [of "shd (choices w)"]
    by (simp add: status_at_def map_of_advanced)
qed (use assms(2) in \<open>simp_all add: status_at_def\<close>)

lemma invocations_payment_store:
  "payment_store (DATA_CACHE w) \<Longrightarrow> \<forall>i\<in>set js. i < length (DATA_CACHE w) \<Longrightarrow>
   payment_store (DATA_CACHE (invocations js w)) \<and>
   length (DATA_CACHE (invocations js w)) = length (DATA_CACHE w)"
proof (induction js arbitrary: w)
  case Nil
  then show ?case by simp
next
  case (Cons i js)
  from Cons.prems have i: "i < length (DATA_CACHE w)" by simp
  note m = mus_payment_store [OF Cons.prems(1) i]
  from Cons.IH [of "snd (maybe_update_status i w)"] Cons.prems m
  show ?case by simp
qed

lemma py_ne_str: "is_str (Inr a) \<Longrightarrow> py_ne a b = (a \<noteq> b)"
  by (auto simp: py_ne_def is_str_def split: json.splits)

lemma status_is_str:
  "payment_store (DATA_CACHE w) \<Longrightarrow> i < length (DATA_CACHE w) \<Longrightarrow> is_str (status_at w i)"
  by (drule (1) payment_store_nth) (simp add: payment_record_def status_at_def)

lemma status_changed_Cons:
  assumes "i < length (DATA_CACHE w)"
  shows "status_changed w (invocations (i # js) w) (i # js) =
     (status_at (snd (maybe_update_status i w)) i \<noteq> status_at w i \<or>
      status_changed (snd (maybe_update_status i w)) (invocations (i # js) w) js)"
proof -
  let ?w1 = "snd (maybe_update_status i w)"
  let ?wf = "invocations js ?w1"
  have other: "status_at ?w1 j = status_at w j" if "j \<noteq> i" for j
    using that by (simp add: mus_status_other)
  show ?thesis
  proof (cases "status_at ?w1 i = status_at w i")
    case True
    then have same: "status_at ?w1 j = status_at w j" for j
      using other by (cases "j = i") simp_all
    have "status_at ?wf i \<noteq> status_at w i \<Longrightarrow> i \<in> set js"
      using invocations_untouched [of i js ?w1] True by auto
    then show ?thesis
      using True by (auto simp: status_changed_def list_ex_iff same)
  next
    case False
    with mus_status_change [OF assms] have "status_at ?w1 i \<noteq> Inr (JStr ''pending'')"
        and "status_at w i = Inr (JStr ''pending'')"
      by simp_all
    with invocations_absorbing [of ?w1 i js] have "status_at ?wf i \<noteq> status_at w i"
      by simp
    with False show ?thesis by (simp add: status_changed_def)
  qed
qed

lemma update_loop_total:
  assumes "payment_store (DATA_CACHE w)" "\<forall>i\<in>set data. i < length (DATA_CACHE w)"
  shows "update_loop data u w =
     (Inr (u \<or> status_changed w (invocations data w) data), invocations data w)"
  using assms
proof (induction data arbitrary: u w)
  case Nil
  then show ?case by (simp add: returnE_def status_changed_def)
next
  case (Cons i data)
  from Cons.prems have i: "i < length (DATA_CACHE w)" by simp
  note m0 = mus_payment_store [OF Cons.prems(1) i]
  obtain w1 where run: "maybe_update_status i w = (Inr i, w1)"
    using m0 by (metis prod.collapse)
  let ?w1 = w1
  from m0 run have m: "payment_store (DATA_CACHE w1) \<and> length (DATA_CACHE w1) = length (DATA_CACHE w)"
    by simp
  from run have w1: "snd (maybe_update_status i w) = w1" by simp
  from status_is_str [OF Cons.prems(1) i] obtain old where old: "status_at w i = Inr (JStr old)"
    by (blast dest: is_strE)
  from m i have "is_str (status_at ?w1 i)" by (simp add: status_is_str)
  then obtain new where new: "status_at ?w1 i = Inr (JStr new)"
    by (blast dest: is_strE)
  have step: "update_loop (i # data) u w = update_loop data (u \<or> new \<noteq> old) ?w1"
    using old new run
    by (simp add: bindE_def record_getitem_def status_at_def py_ne_def)
  have "\<forall>j\<in>set data. j < length (DATA_CACHE ?w1)"
    using Cons.prems m by simp
  with Cons.IH [of ?w1 "u \<or> new \<noteq> old"] m
  have "update_loop data (u \<or> new \<noteq> old) ?w1 =
      (Inr ((u \<or> new \<noteq> old) \<or> status_changed ?w1 (invocations data ?w1) data), invocations data ?w1)"
    by simp
  with step status_changed_Cons [OF i, of data] old new w1 show ?case
    by auto
qed

lemma py_slice_nonneg:
  assumes "0 \<le> s" "0 \<le> l"
  shows "py_slice xs s (s + l) = take (nat l) (drop (nat s) xs)"
proof (cases "s \<le> int (length xs)")
  case True
  show ?thesis
  proof (cases "s + l \<le> int (length xs)")
    case True
    with \<open>s \<le> int (length xs)\<close> assms show ?thesis
      by (simp add: py_slice_def Let_def min_def)
  next
    case False
    with \<open>s \<le> int (length xs)\<close> assms have "length xs - nat s \<le> nat l" by linarith
    with False \<open>s \<le> int (length xs)\<close> assms show ?thesis
      by (simp add: py_slice_def Let_def min_def nat_diff_distrib')
  qed
next
  case False
  with assms show ?thesis
    by (simp add: py_slice_def Let_def min_def)
qed

lemma py_slice_page:
  assumes "1 \<le> page" "1 \<le> limit"
  shows "py_slice xs ((page - 1) * limit) (page * limit) =
         take (nat limit) (drop (nat ((page - 1) * limit)) xs)"
proof -
  have e: "page * limit = (page - 1) * limit + limit" by (simp add: algebra_simps)
  have "0 \<le> (page - 1) * limit" using assms by simp
  then show ?thesis
    unfolding e using assms by (intro py_slice_nonneg) simp_all
qed

section \<open>Properties of the listing\<close>

lemma get_payments_total:
  assumes "payment_store (DATA_CACHE w)" "1 \<le> page" "1 \<le> limit" "limit \<le> 100"
  shows "get_payments lower render date page limit psp_name status w =
    (let data = filter (\<lambda>i. satisfies_nonempty lower date psp_name status (DATA_CACHE w ! i))
                  [0 ..< length (DATA_CACHE w)];
         wm = invocations data w;
         w' = (if status_changed w wm data then wm\<lparr>threads := threads wm @ [Created]\<rparr> else wm);
         page_data = take (nat limit) (drop (nat ((page - 1) * limit)) data)
     in if page_data = [] then (Inl (HTTPException 404 ''No more records''), w')
        else (JSONResponse render
                (page_content date page limit (map (\<lambda>i. DATA_CACHE w' ! i) page_data)), w'))"
proof -
  let ?data = "filter (\<lambda>i. satisfies_nonempty lower date psp_name status (DATA_CACHE w ! i))
                  [0 ..< length (DATA_CACHE w)]"
  have f: "filter_data lower date psp_name status (DATA_CACHE w) = Inr ?data"
    using assms(1) by (rule filter_data_total)
  have "\<forall>i\<in>set ?data. i < length (DATA_CACHE w)" by simp
  with assms(1) have l: "update_loop ?data False w =
     (Inr (status_changed w (invocations ?data w) ?data), invocations ?data w)"
    by (simp add: update_loop_total)
  note s = py_slice_page [OF assms(2,3), of ?data]
  show ?thesis
    using assms(2-4) f l s
    by (simp add: get_payments_def bindE_def returnE_def raiseE_def save_data_async_def
        response_content_def Let_def)
qed

lemma get_payments_state:
  assumes "payment_store (DATA_CACHE w)" "1 \<le> page" "1 \<le> limit" "limit \<le> 100"
  shows "snd (get_payments lower render date page limit psp_name status w) =
    (let data = filter (\<lambda>i. satisfies_nonempty lower date psp_name status (DATA_CACHE w ! i))
                  [0 ..< length (DATA_CACHE w)];
         wm = invocations data w
     in if status_changed w wm data then wm\<lparr>threads := threads wm @ [Created]\<rparr> else wm)"
  by (simp add: get_payments_total [OF assms] Let_def)

lemma get_payments_result:
  assumes "payment_store (DATA_CACHE w)" "1 \<le> page" "1 \<le> limit" "limit \<le> 100"
  shows "fst (get_payments lower render date page limit psp_name status w) =
    (let data = filter (\<lambda>i. satisfies_nonempty lower date psp_name status (DATA_CACHE w ! i))
                  [0 ..< length (DATA_CACHE w)];
         page_data = take (nat limit) (drop (nat ((page - 1) * limit)) data)
     in if page_data = [] then Inl (HTTPException 404 ''No more records'')
        else JSONResponse render
               (page_content date page limit
                  (map (\<lambda>i. DATA_CACHE
                      (snd (get_payments lower render date page limit psp_name status w)) ! i)
                     page_data)))"
  by (simp add: get_payments_total [OF assms] Let_def)

lemma JSONResponse_Inr: "JSONResponse render content = Inr body \<Longrightarrow> body = content"
  by (simp add: JSONResponse_def split: option.splits)

lemma lower_samples:
  "ascii_lower ''PENDING'' = ''pending''" "ascii_lower ''pending'' = ''pending''"
  "ascii_lower ''approved'' = ''approved''" "ascii_lower ''Stripe'' = ''stripe''"
  "ascii_lower ''stripe'' = ''stripe''" "ascii_lower ''Adyen'' = ''adyen''" "ascii_lower ''STRIPE'' = ''stripe''"
  by code_simp+

lemmas eval_defs = get_payments_def bindE_def returnE_def raiseE_def save_data_async_def
        response_content_def page_content_def JSONResponse_def render_ascii_def
        Let_def filter_data_def filter_step_def date_test_def psp_name_test_def
        status_test_def startswith_of_def lower_of_def lower_samples record_getitem_def
        record_setitem_def maybe_update_status_def random_random_def random_choice_def
        utcnow_isoformat_def transitions_getitem_def STATUS_TRANSITIONS_def float_0_3_def
        py_ne_def py_slice_def json_of_optional_def upt_conv_Cons
        scenario_world_def scenario_cache_def eager_world_def nan_world_def

lemma payment_store_scenario: "payment_store scenario_cache"
  by (simp add: payment_store_def payment_record_def is_str_def scenario_cache_def)

lemma invocations_threads: "threads (invocations js w) = threads w"
proof (induction js arbitrary: w)
  case (Cons i js)
  have "threads (snd (maybe_update_status i w)) = threads w"
    by (simp add: maybe_update_status_def prog_defs split: sum.splits prod.splits)
  with Cons show ?case by simp
qed simp

lemma status_changed_cache:
  "DATA_CACHE w1 = DATA_CACHE w2 \<Longrightarrow> status_changed w w1 data = status_changed w w2 data"
  by (simp add: status_changed_def status_at_def)

lemma eager_run:
  "get_payments ascii_lower render_ascii None 1 1 None (Some ''PENDING'') eager_world =
    (Inr (JObj
       [(''date'', JNull), (''page'', JInt 1), (''limit'', JInt 1), (''count'', JInt 1),
        (''data'', JArr [JObj
           [(''id'', JStr ''t1''), (''processing_date'', JStr ''2025-01-01T10:00:00''),
            (''psp_name'', JStr ''Stripe''), (''status'', JStr ''declined''),
            (''amount'', JInt 120), (''status_updated_at'', JStr ''2025-01-03T09:00:00Z'')]])]),
     eager_world\<lparr>DATA_CACHE :=
        [JObj [(''id'', JStr ''t1''), (''processing_date'', JStr ''2025-01-01T10:00:00''),
            (''psp_name'', JStr ''Stripe''), (''status'', JStr ''declined''),
            (''amount'', JInt 120), (''status_updated_at'', JStr ''2025-01-03T09:00:00Z'')],
         scenario_cache ! 1,
         JObj [(''id'', JStr ''t3''), (''processing_date'', JStr ''2025-01-02T12:45:00''),
            (''psp_name'', JStr ''stripe''), (''status'', JStr ''declined''),
            (''amount'', JInt 310), (''status_updated_at'', JStr ''2025-01-03T09:00:00Z'')]],
        threads := [Created]\<rparr>)"
  by (simp add: eval_defs)

lemma bindE_Inr:
  "bindE m f w = (Inr y, w') \<Longrightarrow> \<exists>x w1. m w = (Inr x, w1) \<and> f x w1 = (Inr y, w')"
  by (auto simp: bindE_def split: prod.splits sum.splits)

section \<open>Properties of the lookup\<close>

lemma id_is_str:
  "payment_store (DATA_CACHE w) \<Longrightarrow> i < length (DATA_CACHE w) \<Longrightarrow>
   is_str (getitem (DATA_CACHE w ! i) ''id'')"
  by (drule (1) payment_store_nth) (simp add: payment_record_def)

lemma get_payment_loop_miss:
  assumes "payment_store (DATA_CACHE w)"
    "\<forall>j\<in>set js. j < length (DATA_CACHE w) \<and> getitem (DATA_CACHE w ! j) ''id'' \<noteq> Inr (JStr txn_id)"
  shows "get_payment_loop txn_id (js @ rest) w = get_payment_loop txn_id rest w"
  using assms(2)
proof (induction js)
  case Nil
  then show ?case by simp
next
  case (Cons j js)
  then have j: "j < length (DATA_CACHE w)" "getitem (DATA_CACHE w ! j) ''id'' \<noteq> Inr (JStr txn_id)"
    by simp_all
  from id_is_str [OF assms(1) j(1)] obtain a where a: "getitem (DATA_CACHE w ! j) ''id'' = Inr (JStr a)"
    by (blast dest: is_strE)
  with j(2) have "a \<noteq> txn_id" by simp
  with a Cons show ?case
    by (simp add: bindE_def record_getitem_def)
qed

lemma get_payment_loop_hit:
  assumes "payment_store (DATA_CACHE w)" "i < length (DATA_CACHE w)"
    "getitem (DATA_CACHE w ! i) ''id'' = Inr (JStr txn_id)"
  shows "get_payment_loop txn_id (i # rest) w =
     (Inr i, let w1 = snd (maybe_update_status i w) in
        if status_at w1 i \<noteq> status_at w i then w1\<lparr>threads := threads w1 @ [Created]\<rparr> else w1)"
proof -
  note m0 = mus_payment_store [OF assms(1,2)]
  obtain w1 where run: "maybe_update_status i w = (Inr i, w1)"
    using m0 by (metis prod.collapse)
  from m0 run have m: "payment_store (DATA_CACHE w1)" "length (DATA_CACHE w1) = length (DATA_CACHE w)"
    by simp_all
  from status_is_str [OF assms(1,2)] obtain old where old: "status_at w i = Inr (JStr old)"
    by (blast dest: is_strE)
  from m assms(2) have "is_str (status_at w1 i)" by (simp add: status_is_str)
  then obtain new where new: "status_at w1 i = Inr (JStr new)"
    by (blast dest: is_strE)
  show ?thesis
    using assms(3) old new run
    by (simp add: bindE_def record_getitem_def returnE_def status_at_def py_ne_def
        save_data_async_def)
qed

section \<open>Properties of the load\<close>

lemma load_lines_append:
  "load_lines strip loads (xs @ ys) w =
     (case load_lines strip loads xs w of
        (Inl e, w') \<Rightarrow> (Inl e, w')
      | (Inr u, w') \<Rightarrow> load_lines strip loads ys w')"
proof (induction xs arbitrary: w)
  case Nil
  then show ?case by simp
next
  case (Cons l xs)
  show ?case
  proof (cases "strip l = []")
    case True
    with Cons show ?thesis by simp
  next
    case False
    show ?thesis
    proof (cases "loads (strip l)")
      case (Inr v)
      with False Cons show ?thesis by simp
    next
      case (Inl e)
      with False Cons show ?thesis by (cases e) simp_all
    qed
  qed
qed

lemma load_lines_through:
  assumes "\<forall>l\<in>set ls. \<not> stops strip loads l"
  shows "load_lines strip loads ls w =
     (Inr (), w\<lparr>DATA_CACHE := DATA_CACHE w @ decoded strip loads ls,
                 stdout := stdout w @ warnings strip loads ls\<rparr>)"
  using assms
proof (induction ls arbitrary: w)
  case Nil
  then show ?case by (simp add: decoded_def warnings_def)
next
  case (Cons l ls)
  then have rest: "\<forall>l\<in>set ls. \<not> stops strip loads l" and here: "\<not> stops strip loads l"
    by simp_all
  show ?case
  proof (cases "strip l = []")
    case True
    with Cons.IH [OF rest] show ?thesis by (simp add: decoded_def warnings_def)
  next
    case False
    show ?thesis
    proof (cases "loads (strip l)")
      case (Inr v)
      with False Cons.IH [OF rest] show ?thesis by (simp add: decoded_def warnings_def)
    next
      case (Inl e)
      with here False obtain m where "e = JSONDecodeError m"
        by (cases e) (simp_all add: stops_def)
      with Inl False Cons.IH [OF rest] show ?thesis by (simp add: decoded_def warnings_def)
    qed
  qed
qed

lemma load_lines_stop:
  assumes "stops strip loads l"
  shows "\<exists>e. loads (strip l) = Inl e \<and> (\<forall>m. e \<noteq> JSONDecodeError m) \<and>
     load_lines strip loads (l # ls) w = (Inl e, w)"
proof -
  from assms have ne: "strip l \<noteq> []" by (simp add: stops_def)
  from assms obtain e where e: "loads (strip l) = Inl e"
    by (cases "loads (strip l)") (simp_all add: stops_def)
  with assms have no: "\<forall>m. e \<noteq> JSONDecodeError m"
    by (auto simp: stops_def)
  with e ne have "load_lines strip loads (l # ls) w = (Inl e, w)"
    by (cases e) simp_all
  with e no show ?thesis by blast
qed

lemma load_lines_upto:
  assumes "\<forall>l\<in>set pre. \<not> stops strip loads l" "stops strip loads l" "loads (strip l) = Inl e"
  shows "load_lines strip loads (pre @ l # post) w =
     (Inl e, w\<lparr>DATA_CACHE := DATA_CACHE w @ decoded strip loads pre,
               stdout := stdout w @ warnings strip loads pre\<rparr>)"
proof -
  from load_lines_stop [OF assms(2)] assms(3)
  have "\<And>w. load_lines strip loads (l # post) w = (Inl e, w)"
    by auto
  then show ?thesis
    by (simp add: load_lines_append load_lines_through [OF assms(1)])
qed

lemma translate_newlines_plain: "CHR 0x0D \<notin> set xs \<Longrightarrow> translate_newlines xs = xs"
  by (induction xs rule: translate_newlines.induct) auto

lemma split_lines_chunk:
  "CHR 0x0A \<notin> set xs \<Longrightarrow>
   split_lines cur (xs @ CHR 0x0A # ys) = (cur @ xs @ [CHR 0x0A]) # split_lines [] ys"
  by (induction xs arbitrary: cur) auto

lemma ascii_strip_line:
  assumes "xs \<noteq> []" "\<not> ascii_isspace (hd xs)" "\<not> ascii_isspace (last xs)"
  shows "ascii_strip (xs @ [CHR 0x0A]) = xs"
proof -
  from assms(1,2) have 1: "dropWhile ascii_isspace (xs @ [CHR 0x0A]) = xs @ [CHR 0x0A]"
    by (cases xs) simp_all
  have sp: "ascii_isspace (CHR 0x0A)" by (simp add: ascii_isspace_def)
  from assms(1,3) have 2: "dropWhile ascii_isspace (rev xs) = rev xs"
    by (cases "rev xs") (auto simp: last_rev [symmetric] simp del: last_rev)
  show ?thesis
    by (simp add: ascii_strip_def 1 sp 2)
qed

lemma big_integer_facts:
  "big_integer \<noteq> []" "CHR 0x0A \<notin> set big_integer" "CHR 0x0D \<notin> set big_integer"
  "hd big_integer = CHR ''1''" "last big_integer = CHR ''1''"
  "length big_integer = 4301" "list_all isdigit big_integer"
  by (simp_all add: big_integer_def isdigit_def list_all_iff hd_replicate last_replicate)

lemma file_lines_big_text:
  \<open>file_lines big_text =
     [''{"id": "t1"}'' @ [CHR 0x0A], big_integer @ [CHR 0x0A], ''{"id": "t2"}'' @ [CHR 0x0A]]\<close>
proof -
  have "CHR 0x0D \<notin> set big_text"
    by (simp add: big_text_def big_integer_facts)
  then have "file_lines big_text = split_lines [] big_text"
    by (simp add: file_lines_def translate_newlines_plain)
  also have \<open>\<dots> = (''{"id": "t1"}'' @ [CHR 0x0A]) #
       split_lines [] (big_integer @ CHR 0x0A # ''{"id": "t2"}'' @ [CHR 0x0A])\<close>
    unfolding big_text_def
    using split_lines_chunk [of \<open>''{"id": "t1"}''\<close> "[]"
        \<open>big_integer @ [CHR 0x0A] @ ''{"id": "t2"}'' @ [CHR 0x0A]\<close>]
    by simp
  also have \<open>split_lines [] (big_integer @ CHR 0x0A # ''{"id": "t2"}'' @ [CHR 0x0A])
      = (big_integer @ [CHR 0x0A]) # split_lines [] (''{"id": "t2"}'' @ [CHR 0x0A])\<close>
    using split_lines_chunk [of big_integer "[]" \<open>''{"id": "t2"}'' @ [CHR 0x0A]\<close>]
    by (simp add: big_integer_facts)
  also have \<open>split_lines [] (''{"id": "t2"}'' @ [CHR 0x0A]) = [''{"id": "t2"}'' @ [CHR 0x0A]]\<close>
    by simp
  finally show ?thesis .
qed

lemma big_text_lines:
  \<open>ascii_strip (''{"id": "t1"}'' @ [CHR 0x0A]) = ''{"id": "t1"}''\<close>
  \<open>ascii_strip (''{"id": "t2"}'' @ [CHR 0x0A]) = ''{"id": "t2"}''\<close>
  "ascii_strip (big_integer @ [CHR 0x0A]) = big_integer"
  \<open>sample_loads ''{"id": "t1"}'' = Inr (JObj [(''id'', JStr ''t1'')])\<close>
  \<open>sample_loads ''{"id": "t2"}'' = Inr (JObj [(''id'', JStr ''t2'')])\<close>
  "sample_loads big_integer =
     Inl (ValueError ''Exceeds the limit (4300 digits) for integer string conversion: value has 4301 digits; use sys.set_int_max_str_digits() to increase the limit'')"
proof -
  show "ascii_strip (big_integer @ [CHR 0x0A]) = big_integer"
    by (rule ascii_strip_line) (simp_all add: big_integer_facts ascii_isspace_def)
  show "sample_loads big_integer =
     Inl (ValueError ''Exceeds the limit (4300 digits) for integer string conversion: value has 4301 digits; use sys.set_int_max_str_digits() to increase the limit'')"
    by (simp add: sample_loads_def big_integer_facts)
qed (simp_all add: ascii_strip_def ascii_isspace_def sample_loads_def)

lemma load_lines_big_text:
  "load_lines ascii_strip sample_loads (file_lines big_text) w
     = (Inl (ValueError ''Exceeds the limit (4300 digits) for integer string conversion: value has 4301 digits; use sys.set_int_max_str_digits() to increase the limit''),
        w\<lparr>DATA_CACHE := DATA_CACHE w @ [JObj [(''id'', JStr ''t1'')]]\<rparr>)"
  apply (simp only: file_lines_big_text load_lines.simps Let_def big_text_lines)
  apply (simp add: big_integer_facts)
  done

lemma file_lines_sample_text:
  \<open>file_lines sample_text =
     [''{"id": "t1"}'' @ [CHR 0x0A], [CHR 0x0A], ''not json'' @ [CHR 0x0A],
      ''  {"id": "t2"} '' @ [CHR 0x0A]]\<close>
  by (simp add: file_lines_def sample_text_def)

lemma sample_text_lines:
  "decoded ascii_strip sample_loads (file_lines sample_text) = sample_records"
  "warnings ascii_strip sample_loads (file_lines sample_text)
     = [Skipping_invalid_line ''Expecting value: line 1 column 1 (char 0)'']"
  "\<forall>l\<in>set (file_lines sample_text). \<not> stops ascii_strip sample_loads l"
  by (simp_all add: file_lines_sample_text decoded_def warnings_def stops_def sample_records_def
      sample_loads_def ascii_strip_def ascii_isspace_def)

section \<open>Properties of the writers\<close>

lemma schedule_append: "schedule dumps (ts @ us) w = schedule dumps us (schedule dumps ts w)"
  by (induction ts arbitrary: w) simp_all

lemma serialized_take_Suc:
  "k < length rs \<Longrightarrow>
     serialized dumps (take (Suc k) rs) = serialized dumps (take k rs) @ dumps (rs ! k) @ [CHR 0x0A]"
  by (simp add: serialized_def take_Suc_conv_app_nth)

lemma disturbed_idem: "disturbed (disturbed x) = disturbed x"
  by (cases x) simp_all

lemma disturbed_comp: "disturbed \<circ> disturbed = disturbed"
  by (rule ext) (simp add: disturbed_idem)

lemma disturbed_update:
  "(map disturbed ((map disturbed xs)[t := a]))[t := b] = (map disturbed xs)[t := b]"
  by (simp add: map_update disturbed_comp)

lemma disturbed_Created: "disturbed x = Created \<longleftrightarrow> x = Created"
  by (cases x) simp_all

lemma unfinished_incomplete: "incomplete (Some (unfinished f))"
  by (cases f) simp_all

lemma requests_threads: "requests k w = w\<lparr>threads := threads w @ replicate k Created\<rparr>"
proof (induction k arbitrary: w)
  case 0
  then show ?case by simp
next
  case (Suc k)
  then show ?case
    by (simp add: save_data_async_def replicate_append_same)
qed

lemma in_flight_append: "in_flight (ws @ vs) = in_flight ws + in_flight vs"
proof (induction ws)
  case Nil
  then show ?case by simp
next
  case (Cons a ws)
  then show ?case by (cases a) simp_all
qed

lemma in_flight_replicate:
  "in_flight (replicate k Created) = 0" "in_flight (replicate k (Writing i p b)) = k"
  "in_flight (replicate k Finished) = 0"
  by (induction k) simp_all

lemma in_flight_disturbed: "in_flight (map disturbed ws) = in_flight ws"
proof (induction ws)
  case Nil
  then show ?case by simp
next
  case (Cons a ws)
  then show ?case by (cases a) simp_all
qed

text \<open>The first step of a writer.\<close>

lemma open_step:
  assumes "t < length (threads w)" "threads w ! t = Created"
  shows "thread_step dumps (t, fl) w =
     w\<lparr>payments_file := Some (Complete []),
       threads := (map disturbed (threads w))[t := Writing 0 [] True]\<rparr>"
  using assms by (simp add: thread_step_def)

text \<open>A writer that runs alone: its first step and \<open>j\<close> passes of its loop.\<close>

lemma lone_writer_steps:
  assumes "t < length (threads w)" "threads w ! t = Created"
  shows "length fls \<le> length (DATA_CACHE w) \<Longrightarrow>
     \<exists>f. incomplete (Some f) \<and>
       schedule dumps (steps_of t (fl # fls)) w =
         w\<lparr>payments_file := Some f,
           threads := (map disturbed (threads w))
             [t := Writing (length fls) (serialized dumps (take (length fls) (DATA_CACHE w))) True]\<rparr>"
proof (induction fls rule: rev_induct)
  case Nil
  have "schedule dumps (steps_of t [fl]) w = thread_step dumps (t, fl) w"
    by (simp add: steps_of_def)
  with open_step [OF assms, of dumps fl] show ?case
    by (intro exI [of _ "Complete []"]) (simp add: serialized_def)
next
  case (snoc g fls)
  let ?k = "length fls"
  let ?txt = "serialized dumps (take ?k (DATA_CACHE w))"
  from snoc.prems have k: "?k < length (DATA_CACHE w)"
    by simp
  with snoc.IH obtain f where f: "incomplete (Some f)"
    and run: "schedule dumps (steps_of t (fl # fls)) w =
         w\<lparr>payments_file := Some f,
           threads := (map disturbed (threads w))[t := Writing ?k ?txt True]\<rparr>"
    by auto
  define w1 where "w1 = schedule dumps (steps_of t (fl # fls)) w"
  have w1: "w1 = w\<lparr>payments_file := Some f,
           threads := (map disturbed (threads w))[t := Writing ?k ?txt True]\<rparr>"
    unfolding w1_def by (rule run)
  have "steps_of t (fl # fls @ [g]) = steps_of t (fl # fls) @ [(t, g)]"
    by (simp add: steps_of_def)
  then have step: "schedule dumps (steps_of t (fl # fls @ [g])) w = thread_step dumps (t, g) w1"
    unfolding w1_def by (simp only: schedule_append schedule.simps)
  show ?case
  proof (cases g)
    case Buffered
    then have "thread_step dumps (t, g) w1 =
        w\<lparr>payments_file := Some f,
          threads := (map disturbed (threads w))
            [t := Writing (Suc ?k) (serialized dumps (take (Suc ?k) (DATA_CACHE w))) True]\<rparr>"
      using assms(1) k by (simp add: w1 thread_step_def serialized_take_Suc)
    with step f show ?thesis
      by auto
  next
    case (Reaches h)
    then have "thread_step dumps (t, g) w1 =
        w\<lparr>payments_file := Some (unfinished h),
          threads := (map disturbed (threads w))
            [t := Writing (Suc ?k) (serialized dumps (take (Suc ?k) (DATA_CACHE w))) True]\<rparr>"
      using assms(1) k by (simp add: w1 thread_step_def serialized_take_Suc disturbed_update)
    with step unfinished_incomplete [of h] show ?thesis
      by auto
  qed
qed

text \<open>A writer that runs alone to its end.\<close>

lemma lone_writer_run:
  assumes "t < length (threads w)" "threads w ! t = Created"
    and "length fls = length (DATA_CACHE w)"
  shows "schedule dumps (steps_of t (fl # fls @ [g])) w =
     w\<lparr>payments_file := Some (Complete (serialized dumps (DATA_CACHE w))),
       threads := (map disturbed (threads w))[t := Finished]\<rparr>"
proof -
  let ?n = "length (DATA_CACHE w)"
  let ?txt = "serialized dumps (DATA_CACHE w)"
  from assms(3) have "length fls \<le> ?n"
    by simp
  from lone_writer_steps [OF assms(1,2) this, of dumps fl] assms(3)
  obtain f where run: "schedule dumps (steps_of t (fl # fls)) w =
         w\<lparr>payments_file := Some f,
           threads := (map disturbed (threads w))[t := Writing ?n ?txt True]\<rparr>"
    by auto
  define w1 where "w1 = schedule dumps (steps_of t (fl # fls)) w"
  have w1: "w1 = w\<lparr>payments_file := Some f,
           threads := (map disturbed (threads w))[t := Writing ?n ?txt True]\<rparr>"
    unfolding w1_def by (rule run)
  have "steps_of t (fl # fls @ [g]) = steps_of t (fl # fls) @ [(t, g)]"
    by (simp add: steps_of_def)
  then have "schedule dumps (steps_of t (fl # fls @ [g])) w = thread_step dumps (t, g) w1"
    unfolding w1_def by (simp only: schedule_append schedule.simps)
  also have "\<dots> = w\<lparr>payments_file := Some (Complete ?txt),
       threads := (map disturbed (threads w))[t := Finished]\<rparr>"
    using assms(1) by (simp add: w1 thread_step_def map_update disturbed_idem disturbed_comp)
  finally show ?thesis .
qed

lemma replicate_steps:
  "replicate (n + 2) (t, fl) = steps_of t (fl # replicate n fl @ [fl])"
  by (simp add: steps_of_def replicate_append_same)

text \<open>The new writers open the file one after the other.\<close>

lemma open_all:
  assumes "threads w = ws @ replicate q Created"
  shows "k \<le> q \<Longrightarrow>
     map disturbed (threads (schedule dumps (map (\<lambda>t. (t, fl)) [length ws ..< length ws + k]) w))
       = map disturbed ws @ replicate k (Writing 0 [] False) @ replicate (q - k) Created"
proof (induction k)
  case 0
  with assms show ?case by simp
next
  case (Suc k)
  let ?m = "length ws"
  let ?s = "schedule dumps (map (\<lambda>t. (t, fl)) [?m ..< ?m + k]) w"
  from Suc have th: "map disturbed (threads ?s)
      = map disturbed ws @ replicate k (Writing 0 [] False) @ replicate (q - k) Created"
    by simp
  from Suc.prems obtain j where q: "q - k = Suc j" "q - Suc k = j"
    by (cases "q - k") simp_all
  from th have "length (map disturbed (threads ?s)) = ?m + k + Suc j"
    by (simp add: q)
  then have len: "?m + k < length (threads ?s)"
    by simp
  have "map disturbed (threads ?s) ! (?m + k) = Created"
    by (simp add: th q nth_append)
  with len have at: "threads ?s ! (?m + k) = Created"
    by (simp add: disturbed_Created)
  have "map (\<lambda>t. (t, fl)) [?m ..< ?m + Suc k] = map (\<lambda>t. (t, fl)) [?m ..< ?m + k] @ [(?m + k, fl)]"
    by simp
  then have "threads (schedule dumps (map (\<lambda>t. (t, fl)) [?m ..< ?m + Suc k]) w)
      = threads (thread_step dumps (?m + k, fl) ?s)"
    by (simp only: schedule_append schedule.simps)
  also have "\<dots> = (map disturbed (threads ?s))[?m + k := Writing 0 [] True]"
    by (simp add: open_step [OF len at])
  finally have "map disturbed (threads (schedule dumps (map (\<lambda>t. (t, fl)) [?m ..< ?m + Suc k]) w))
      = (map disturbed (threads ?s))[?m + k := Writing 0 [] False]"
    by (simp add: map_update disturbed_idem disturbed_comp)
  also have "\<dots> = map disturbed ws @ replicate k (Writing 0 [] False) @
        (Writing 0 [] False # replicate j Created)"
    by (simp add: th q list_update_append)
  also have "\<dots> = map disturbed ws @ replicate (Suc k) (Writing 0 [] False) @
        replicate (q - Suc k) Created"
    by (simp add: q replicate_app_Cons_same)
  finally show ?case .
qed

text \<open>The new writers run one after the other, each to its end.\<close>

lemma run_all:
  assumes "threads w = ws @ replicate q Created"
  shows "k \<le> q \<Longrightarrow>
     \<exists>ws'. length ws' = length ws \<and>
       schedule dumps (one_by_one (length (DATA_CACHE w)) fl [length ws ..< length ws + k]) w =
         w\<lparr>payments_file :=
              (if k = 0 then payments_file w
               else Some (Complete (serialized dumps (DATA_CACHE w)))),
           threads := ws' @ replicate k Finished @ replicate (q - k) Created\<rparr>"
proof (induction k)
  case 0
  with assms show ?case
    by (intro exI [of _ ws]) (simp add: one_by_one_def)
next
  case (Suc k)
  let ?m = "length ws" and ?n = "length (DATA_CACHE w)"
  let ?txt = "serialized dumps (DATA_CACHE w)"
  define s where "s = schedule dumps (one_by_one ?n fl [?m ..< ?m + k]) w"
  from Suc obtain ws' where len: "length ws' = ?m"
    and s: "s = w\<lparr>payments_file := (if k = 0 then payments_file w else Some (Complete ?txt)),
           threads := ws' @ replicate k Finished @ replicate (q - k) Created\<rparr>"
    unfolding s_def by auto
  from Suc.prems obtain j where q: "q - k = Suc j" "q - Suc k = j"
    by (cases "q - k") simp_all
  have cache: "DATA_CACHE s = DATA_CACHE w"
    by (simp add: s)
  have th: "threads s = ws' @ replicate k Finished @ Created # replicate j Created"
    by (simp add: s q)
  have lt: "?m + k < length (threads s)"
    by (simp add: th len)
  have at: "threads s ! (?m + k) = Created"
    by (simp add: th len nth_append)
  have fls: "length (replicate ?n fl) = length (DATA_CACHE s)"
    by (simp add: cache)
  have "one_by_one ?n fl [?m ..< ?m + Suc k]
      = one_by_one ?n fl [?m ..< ?m + k] @ replicate (?n + 2) (?m + k, fl)"
    by (simp add: one_by_one_def)
  then have "schedule dumps (one_by_one ?n fl [?m ..< ?m + Suc k]) w
      = schedule dumps (steps_of (?m + k) (fl # replicate ?n fl @ [fl])) s"
    unfolding s_def by (simp only: schedule_append replicate_steps)
  also have "\<dots> = s\<lparr>payments_file := Some (Complete (serialized dumps (DATA_CACHE s))),
       threads := (map disturbed (threads s))[?m + k := Finished]\<rparr>"
    by (rule lone_writer_run [OF lt at fls])
  also have "(map disturbed (threads s))[?m + k := Finished]
      = map disturbed ws' @ replicate (Suc k) Finished @ replicate (q - Suc k) Created"
    by (simp add: th len q list_update_append replicate_app_Cons_same)
  finally have "schedule dumps (one_by_one ?n fl [?m ..< ?m + Suc k]) w
      = w\<lparr>payments_file := Some (Complete ?txt),
          threads := map disturbed ws' @ replicate (Suc k) Finished @ replicate (q - Suc k) Created\<rparr>"
    by (simp add: s)
  with len show ?case
    by (intro exI [of _ "map disturbed ws'"]) simp
qed



lemma stored_world_fields:
  "DATA_CACHE stored_world = sample_records"
  "threads stored_world = []"
  \<open>payments_file stored_world
     = Some (Complete (''{"id": "t1"}'' @ [CHR 0x0A] @ ''{"id": "t2"}'' @ [CHR 0x0A]))\<close>
  "stdout stored_world = []"
  by (simp_all add: stored_world_def scenario_world_def)

lemma sample_dumps_records:
  \<open>sample_dumps (sample_records ! 0) = ''{"id": "t1"}''\<close>
  \<open>sample_dumps (sample_records ! Suc 0) = ''{"id": "t2"}''\<close>
  "length sample_records = 2"
  by (simp_all add: sample_dumps_def sample_records_def)

lemmas writer_eval = requests_threads thread_step_def stored_world_fields sample_dumps_records
  Let_def eval_nat_numeral

section \<open>The claims about the simulator\<close>

text \<open>
  C1. A call of the simulator on a record whose status is not \<open>pending\<close> leaves the
  whole state as it is, and the status of such a record is the same after any further
  calls of the simulator, on this record or on others: a status that is not \<open>pending\<close>
  never changes again, so it never becomes \<open>pending\<close>.
\<close>

theorem terminal_status_absorbing:
  "status_at w i \<noteq> Inr (JStr ''pending'') \<Longrightarrow>
     snd (maybe_update_status i w) = w \<and> status_at (invocations js w) i = status_at w i"
  by (simp add: mus_absorbing invocations_absorbing)

theorem terminal_status_absorbing_witness:
  "status_at scenario_world 1 \<noteq> Inr (JStr ''pending'') \<and>
   snd (maybe_update_status 1 scenario_world) = scenario_world \<and>
   status_at (invocations [1, 0, 1, 2, 1] scenario_world) 1 = Inr (JStr ''approved'')"
proof -
  have v: "status_at scenario_world 1 = Inr (JStr ''approved'')"
    by (simp add: scenario_world_def scenario_cache_def status_at_def)
  then have h: "status_at scenario_world 1 \<noteq> Inr (JStr ''pending'')"
    by simp
  from terminal_status_absorbing [OF h, of "[1, 0, 1, 2, 1]"] h v show ?thesis
    by (simp del: invocations.simps)
qed

text \<open>
  C10. A call of the simulator on the record at position \<open>i\<close> returns that record unless
  reading its status raises, in which case nothing changes. It changes no other record and
  not the length of the cache, no field of the record other than \<open>status\<close> and
  \<open>status_updated_at\<close>, and neither the file, the threads nor the output. When it changes
  the record, the record was pending, its new status is one of the destinations that the
  transition table gives for \<open>pending\<close> (\<open>approved\<close> or \<open>declined\<close>), and
  \<open>status_updated_at\<close> is a string.
\<close>

theorem simulator_frame:
  assumes "i < length (DATA_CACHE w)" and "maybe_update_status i w = (r, w')"
  shows "(r = Inr i \<or> (\<exists>e. r = Inl e \<and> status_at w i = Inl e \<and> w' = w)) \<and>
    length (DATA_CACHE w') = length (DATA_CACHE w) \<and>
    (\<forall>j. j \<noteq> i \<longrightarrow> DATA_CACHE w' ! j = DATA_CACHE w ! j) \<and>
    (\<forall>k. k \<noteq> ''status'' \<and> k \<noteq> ''status_updated_at'' \<longrightarrow>
        getitem (DATA_CACHE w' ! i) k = getitem (DATA_CACHE w ! i) k) \<and>
    payments_file w' = payments_file w \<and> threads w' = threads w \<and> stdout w' = stdout w \<and>
    (DATA_CACHE w' ! i \<noteq> DATA_CACHE w ! i \<longrightarrow>
       status_at w i = Inr (JStr ''pending'') \<and>
       (\<exists>ds d. map_of STATUS_TRANSITIONS ''pending'' = Some ds \<and> d \<in> set ds \<and>
          status_at w' i = Inr (JStr d) \<and> (d = ''approved'' \<or> d = ''declined'')) \<and>
       (\<exists>t. getitem (DATA_CACHE w' ! i) ''status_updated_at'' = Inr (JStr t)))"
  using assms(1)
proof (cases rule: mus_cases)
  case (error e)
  with assms show ?thesis by auto
next
  case (other s)
  with assms show ?thesis by auto
next
  case stay
  with assms show ?thesis by auto
next
  case (advance kvs)
  with assms(2) have r: "r = Inr i" and w': "w' = w\<lparr>randoms := stl (randoms w), choices := stl (choices w), clock := stl (clock w),
           DATA_CACHE := (DATA_CACHE w)[i := JObj (advanced w kvs)]\<rparr>"
    by simp_all
  have st: "status_at w i = Inr (JStr ''pending'')"
    using advance(1,2) by (simp add: status_at_def)
  have new: "DATA_CACHE w' ! i = JObj (advanced w kvs)"
    using assms(1) by (simp add: w')
  have frame: "\<forall>k. k \<noteq> ''status'' \<and> k \<noteq> ''status_updated_at'' \<longrightarrow>
        getitem (DATA_CACHE w' ! i) k = getitem (DATA_CACHE w ! i) k"
    by (simp add: new advance(1) map_of_advanced)
  have dest: "\<exists>ds d. map_of STATUS_TRANSITIONS ''pending'' = Some ds \<and> d \<in> set ds \<and>
          status_at w' i = Inr (JStr d) \<and> (d = ''approved'' \<or> d = ''declined'')"
    using choice_dest [of "shd (choices w)"]
    by (auto simp add: STATUS_TRANSITIONS_def status_at_def new map_of_advanced)
  have stamp: "\<exists>t. getitem (DATA_CACHE w' ! i) ''status_updated_at'' = Inr (JStr t)"
    by (simp add: new map_of_advanced)
  have others: "length (DATA_CACHE w') = length (DATA_CACHE w) \<and>
    (\<forall>j. j \<noteq> i \<longrightarrow> DATA_CACHE w' ! j = DATA_CACHE w ! j) \<and>
    payments_file w' = payments_file w \<and> threads w' = threads w \<and> stdout w' = stdout w"
    by (simp add: w')
  from r st frame dest stamp others show ?thesis by blast
qed

theorem simulator_frame_witness:
  "0 < length (DATA_CACHE scenario_world) \<and>
   fst (maybe_update_status 0 scenario_world) = Inr 0 \<and>
   status_at (snd (maybe_update_status 0 scenario_world)) 0 = Inr (JStr ''declined'') \<and>
   getitem (DATA_CACHE (snd (maybe_update_status 0 scenario_world)) ! 0) ''status_updated_at''
     = Inr (JStr ''2025-01-03T09:00:00Z'') \<and>
   getitem (DATA_CACHE (snd (maybe_update_status 0 scenario_world)) ! 0) ''amount''
     = Inr (JInt 120) \<and>
   DATA_CACHE (snd (maybe_update_status 0 scenario_world)) ! 2 = scenario_cache ! 2"
proof -
  obtain r w' where run: "maybe_update_status 0 scenario_world = (r, w')"
    by (cases "maybe_update_status 0 scenario_world")
  have len: "0 < length (DATA_CACHE scenario_world)"
    by (simp add: scenario_world_def scenario_cache_def)
  have kvs: "DATA_CACHE scenario_world ! 0 = hd scenario_cache"
    by (simp add: scenario_world_def scenario_cache_def)
  have adv: "maybe_update_status 0 scenario_world =
    (Inr 0, scenario_world\<lparr>randoms := stl (randoms scenario_world),
       choices := stl (choices scenario_world), clock := stl (clock scenario_world),
       DATA_CACHE := (DATA_CACHE scenario_world)
         [0 := JObj (advanced scenario_world
            [(''id'', JStr ''t1''), (''processing_date'', JStr ''2025-01-01T10:00:00''),
             (''psp_name'', JStr ''Stripe''), (''status'', JStr ''pending''),
             (''amount'', JInt 120)])]\<rparr>)"
    by (rule mus_pending_advance)
       (simp_all add: scenario_world_def scenario_cache_def float_0_3_def)
  have new: "DATA_CACHE w' ! 0 = JObj
     [(''id'', JStr ''t1''), (''processing_date'', JStr ''2025-01-01T10:00:00''),
      (''psp_name'', JStr ''Stripe''), (''status'', JStr ''declined''),
      (''amount'', JInt 120), (''status_updated_at'', JStr ''2025-01-03T09:00:00Z'')]"
    using run adv by (simp add: advanced_def scenario_world_def scenario_cache_def)
  have old: "getitem (DATA_CACHE scenario_world ! 0) ''amount'' = Inr (JInt 120)"
       "DATA_CACHE scenario_world ! 2 = scenario_cache ! 2"
    by (simp_all add: scenario_world_def scenario_cache_def)
  from simulator_frame [OF len run] run adv new old len show ?thesis
    by (simp add: status_at_def)
qed

section \<open>The claims about the listing\<close>

text \<open>
  C2, as amended. On a store of payment records and for every combination of the three
  filters, where a filter that is absent or the empty string counts as not supplied, the
  filtered sequence holds exactly the positions of the records that satisfy every supplied
  predicate, in the order of the store, and the records at these positions are the matching
  records of the store in their order. The predicates are: the date is a prefix of the
  processing date; the PSP name, and the status, are equal up to case, which the code
  decides by applying \<^verbatim>\<open>str.lower\<close> to both sides. The statement holds for every function
  in the place of \<^verbatim>\<open>str.lower\<close>.
\<close>

theorem filter_exact:
  assumes "payment_store cache"
  shows "\<exists>data. filter_data lower date psp_name status cache = Inr data \<and>
     (\<forall>i. i \<in> set data \<longleftrightarrow>
          i < length cache \<and> satisfies_nonempty lower date psp_name status (cache ! i)) \<and>
     sorted_wrt (<) data \<and>
     map (\<lambda>i. cache ! i) data = filter (satisfies_nonempty lower date psp_name status) cache"
proof -
  let ?P = "satisfies_nonempty lower date psp_name status"
  let ?data = "filter (\<lambda>i. ?P (cache ! i)) [0 ..< length cache]"
  have 1: "filter_data lower date psp_name status cache = Inr ?data"
    using assms by (rule filter_data_total)
  have 2: "\<forall>i. i \<in> set ?data \<longleftrightarrow> i < length cache \<and> ?P (cache ! i)"
    by auto
  have 3: "sorted_wrt (<) ?data"
    by (simp add: sorted_wrt_filter)
  have "map (\<lambda>i. cache ! i) ?data = filter ?P (map (\<lambda>i. cache ! i) [0 ..< length cache])"
    by (simp add: filter_map comp_def)
  then have 4: "map (\<lambda>i. cache ! i) ?data = filter ?P cache"
    by (simp add: map_nth)
  from 1 2 3 4 show ?thesis by blast
qed

theorem filter_exact_witness:
  "payment_store scenario_cache \<and>
   filter_data ascii_lower (Some ''2025-01-02'') (Some ''STRIPE'') (Some '''') scenario_cache = Inr [2] \<and>
   filter (satisfies_nonempty ascii_lower (Some ''2025-01-02'') (Some ''STRIPE'') (Some '''')) scenario_cache
     = [scenario_cache ! 2]"
proof -
  have v: "filter_data ascii_lower (Some ''2025-01-02'') (Some ''STRIPE'') (Some '''') scenario_cache = Inr [2]"
    by (simp add: eval_defs)
  from filter_exact [OF payment_store_scenario, of ascii_lower "Some ''2025-01-02''"
      "Some ''STRIPE''" "Some ''''"]
    v payment_store_scenario
  show ?thesis by (auto simp del: filter.simps)
qed

text \<open>
  The claim as stated fails for a filter that is the empty string: the request with
  \<^verbatim>\<open>psp_name=""\<close> gets every record of the scenario, though the PSP name of none is
  the empty string.
\<close>

theorem filter_empty_string_counterexample:
  "filter_data ascii_lower None (Some '''') None scenario_cache = Inr [0, 1, 2] \<and>
   \<not> satisfies_supplied ascii_lower None (Some '''') None (scenario_cache ! 0)"
  by (simp add: eval_defs satisfies_supplied_def psp_name_matches_def ascii_lower_def)

text \<open>
  C3. In a call of \<^verbatim>\<open>get_payments\<close> with valid page and limit on a store of payment
  records, the state it leaves is, but for the threads, the state after a call of the
  simulator on every record of the filtered sequence, in order, whatever the page; one
  writer thread is started when the status of one of these records has changed and none
  otherwise; and the records of a returned page are read in the state left.
\<close>

theorem listing_updates_before_paging:
  assumes "payment_store (DATA_CACHE w)" "1 \<le> page" "1 \<le> limit" "limit \<le> 100"
    and "get_payments lower render date page limit psp_name status w = (r, w')"
  shows "\<exists>data. filter_data lower date psp_name status (DATA_CACHE w) = Inr data \<and>
     w' = (invocations data w)\<lparr>threads := threads w'\<rparr> \<and>
     threads w' = threads w @ (if status_changed w w' data then [Created] else []) \<and>
     (\<forall>body. r = Inr body \<longrightarrow>
        getitem body ''data'' =
          Inr (JArr (map (\<lambda>i. DATA_CACHE w' ! i)
                 (py_slice data ((page - 1) * limit) (page * limit)))))"
proof -
  let ?data = "filter (\<lambda>i. satisfies_nonempty lower date psp_name status (DATA_CACHE w ! i))
                  [0 ..< length (DATA_CACHE w)]"
  let ?wm = "invocations ?data w"
  have f: "filter_data lower date psp_name status (DATA_CACHE w) = Inr ?data"
    using assms(1) by (rule filter_data_total)
  note s = py_slice_page [OF assms(2,3), of ?data]
  from assms(5) have fs: "fst (get_payments lower render date page limit psp_name status w) = r"
      "snd (get_payments lower render date page limit psp_name status w) = w'"
    by simp_all
  have w': "w' = (if status_changed w ?wm ?data then ?wm\<lparr>threads := threads ?wm @ [Created]\<rparr> else ?wm)"
    using get_payments_state [OF assms(1-4), of lower render date psp_name status]
    unfolding fs Let_def .
  have r: "r = (if take (nat limit) (drop (nat ((page - 1) * limit)) ?data) = []
           then Inl (HTTPException 404 ''No more records'')
           else JSONResponse render (page_content date page limit
                  (map (\<lambda>i. DATA_CACHE w' ! i)
                      (take (nat limit) (drop (nat ((page - 1) * limit)) ?data)))))"
    using get_payments_result [OF assms(1-4), of lower render date psp_name status]
    unfolding fs Let_def .
  from w' have cache: "DATA_CACHE w' = DATA_CACHE ?wm" by simp
  have a: "w' = ?wm\<lparr>threads := threads w'\<rparr>"
    by (subst (1 2) w') simp
  have b: "threads w' = threads w @ (if status_changed w w' ?data then [Created] else [])"
    using w' status_changed_cache [OF cache, of w ?data] by (simp add: invocations_threads)
  have c: "\<forall>body. r = Inr body \<longrightarrow>
        getitem body ''data'' =
          Inr (JArr (map (\<lambda>i. DATA_CACHE w' ! i)
                 (py_slice ?data ((page - 1) * limit) (page * limit))))"
    by (subst r) (auto simp: s page_content_def dest!: JSONResponse_Inr)
  from f a b c show ?thesis by blast
qed

theorem listing_updates_before_paging_witness:
  "payment_store (DATA_CACHE eager_world) \<and>
   filter_data ascii_lower None None (Some ''PENDING'') (DATA_CACHE eager_world) = Inr [0, 2] \<and>
   py_slice [0, 2 :: nat] ((1 - 1) * 1) (1 * 1) = [0] \<and>
   status_at eager_world 2 = Inr (JStr ''pending'') \<and>
   status_at (snd (get_payments ascii_lower render_ascii None 1 1 None (Some ''PENDING'') eager_world)) 2
     = Inr (JStr ''declined'') \<and>
   status_at (snd (get_payments ascii_lower render_ascii None 1 1 None (Some ''PENDING'') eager_world)) 0
     = Inr (JStr ''declined'') \<and>
   threads (snd (get_payments ascii_lower render_ascii None 1 1 None (Some ''PENDING'') eager_world)) = [Created] \<and>
   map_sum id (\<lambda>body. getitem body ''data'')
       (fst (get_payments ascii_lower render_ascii None 1 1 None (Some ''PENDING'') eager_world))
     = Inr (Inr (JArr [JObj
           [(''id'', JStr ''t1''), (''processing_date'', JStr ''2025-01-01T10:00:00''),
            (''psp_name'', JStr ''Stripe''), (''status'', JStr ''declined''),
            (''amount'', JInt 120), (''status_updated_at'', JStr ''2025-01-03T09:00:00Z'')]]))"
proof -
  have store: "payment_store (DATA_CACHE eager_world)"
    using payment_store_scenario by (simp add: eager_world_def scenario_world_def)
  have data: "filter_data ascii_lower None None (Some ''PENDING'') (DATA_CACHE eager_world) = Inr [0, 2]"
    by (simp add: eval_defs)
  have slice: "py_slice [0, 2 :: nat] ((1 - 1) * 1) (1 * 1) = [0]"
    by (simp add: py_slice_def)
  have before: "status_at eager_world 2 = Inr (JStr ''pending'')"
    by (simp add: status_at_def eval_defs)
  have after: "status_at (snd (get_payments ascii_lower render_ascii None 1 1 None (Some ''PENDING'') eager_world)) 2
       = Inr (JStr ''declined'')"
     "status_at (snd (get_payments ascii_lower render_ascii None 1 1 None (Some ''PENDING'') eager_world)) 0
       = Inr (JStr ''declined'')"
     "threads (snd (get_payments ascii_lower render_ascii None 1 1 None (Some ''PENDING'') eager_world)) = [Created]"
    by (simp_all add: eager_run status_at_def)
  have page: "map_sum id (\<lambda>body. getitem body ''data'')
       (fst (get_payments ascii_lower render_ascii None 1 1 None (Some ''PENDING'') eager_world))
     = Inr (Inr (JArr [JObj
           [(''id'', JStr ''t1''), (''processing_date'', JStr ''2025-01-01T10:00:00''),
            (''psp_name'', JStr ''Stripe''), (''status'', JStr ''declined''),
            (''amount'', JInt 120), (''status_updated_at'', JStr ''2025-01-03T09:00:00Z'')]]))"
    by (simp add: eager_run)
  obtain r w' where run: "get_payments ascii_lower render_ascii None 1 1 None (Some ''PENDING'') eager_world = (r, w')"
    by (cases "get_payments ascii_lower render_ascii None 1 1 None (Some ''PENDING'') eager_world")
  have "\<exists>data. filter_data ascii_lower None None (Some ''PENDING'') (DATA_CACHE eager_world) = Inr data \<and>
     w' = (invocations data eager_world)\<lparr>threads := threads w'\<rparr>"
    using listing_updates_before_paging [OF store _ _ _ run] by auto
  with store data slice before after page show ?thesis
    by blast
qed

text \<open>
  C4. For a page of at least 1 and a limit from 1 to 100, on a store of payment records,
  the slice is the part of the filtered sequence from index \<open>(page - 1) * limit\<close>, at
  most \<open>limit\<close> long. When it is empty, as it is for every page that starts at or past the
  end of the filtered sequence, the call raises the 404 exception with detail
  \<open>No more records\<close>. When it is not empty, the call hands the records of the slice, as
  they are after the updates, and their number to \<^verbatim>\<open>JSONResponse\<close>, and ends as the
  rendering does: with the response, or with the exception that the rendering raises. So
  every response that is returned holds exactly the records of the slice and their number.
\<close>

theorem listing_page:
  assumes "payment_store (DATA_CACHE w)" "1 \<le> page" "1 \<le> limit" "limit \<le> 100"
    and "get_payments lower render date page limit psp_name status w = (r, w')"
    and "filter_data lower date psp_name status (DATA_CACHE w) = Inr data"
  shows "py_slice data ((page - 1) * limit) (page * limit)
             = take (nat limit) (drop (nat ((page - 1) * limit)) data) \<and>
     length (py_slice data ((page - 1) * limit) (page * limit)) \<le> nat limit \<and>
     (\<forall>k < length (py_slice data ((page - 1) * limit) (page * limit)).
         py_slice data ((page - 1) * limit) (page * limit) ! k
           = data ! (nat ((page - 1) * limit) + k)) \<and>
     (py_slice data ((page - 1) * limit) (page * limit) = [] \<longrightarrow>
         r = Inl (HTTPException 404 ''No more records'')) \<and>
     (py_slice data ((page - 1) * limit) (page * limit) \<noteq> [] \<longrightarrow>
         r = JSONResponse render (page_content date page limit
               (map (\<lambda>i. DATA_CACHE w' ! i)
                  (py_slice data ((page - 1) * limit) (page * limit))))) \<and>
     (\<forall>body. r = Inr body \<longrightarrow>
         py_slice data ((page - 1) * limit) (page * limit) \<noteq> [] \<and>
         getitem body ''data'' = Inr (JArr (map (\<lambda>i. DATA_CACHE w' ! i)
                (py_slice data ((page - 1) * limit) (page * limit)))) \<and>
         getitem body ''count'' =
           Inr (JInt (int (length (py_slice data ((page - 1) * limit) (page * limit)))))) \<and>
     (int (length data) \<le> (page - 1) * limit \<longrightarrow>
         r = Inl (HTTPException 404 ''No more records''))"
proof -
  let ?data = "filter (\<lambda>i. satisfies_nonempty lower date psp_name status (DATA_CACHE w ! i))
                  [0 ..< length (DATA_CACHE w)]"
  let ?pd = "take (nat limit) (drop (nat ((page - 1) * limit)) data)"
  have "filter_data lower date psp_name status (DATA_CACHE w) = Inr ?data"
    using assms(1) by (rule filter_data_total)
  with assms(6) have data: "?data = data" by simp
  have s: "py_slice data ((page - 1) * limit) (page * limit) = ?pd"
    by (rule py_slice_page [OF assms(2,3)])
  from assms(5) have fs: "fst (get_payments lower render date page limit psp_name status w) = r"
      "snd (get_payments lower render date page limit psp_name status w) = w'"
    by simp_all
  have r: "r = (if ?pd = [] then Inl (HTTPException 404 ''No more records'')
           else JSONResponse render (page_content date page limit
                  (map (\<lambda>i. DATA_CACHE w' ! i) ?pd)))"
    using get_payments_result [OF assms(1-4), of lower render date psp_name status]
    unfolding fs Let_def data .
  have 1: "length ?pd \<le> nat limit" by simp
  have 2: "\<forall>k < length ?pd. ?pd ! k = data ! (nat ((page - 1) * limit) + k)"
  proof (intro allI impI)
    fix k
    assume "k < length ?pd"
    then have "k < length data - nat ((page - 1) * limit)" "k < nat limit"
      by simp_all
    then have "k < nat limit" "nat ((page - 1) * limit) \<le> length data"
      by linarith+
    then show "?pd ! k = data ! (nat ((page - 1) * limit) + k)"
      by simp
  qed
  have 3: "?pd = [] \<longrightarrow> r = Inl (HTTPException 404 ''No more records'')"
    by (subst r) simp
  have 4: "?pd \<noteq> [] \<longrightarrow> r = JSONResponse render (page_content date page limit
                  (map (\<lambda>i. DATA_CACHE w' ! i) ?pd))"
    by (subst r) simp
  have 5: "\<forall>body. r = Inr body \<longrightarrow> ?pd \<noteq> [] \<and>
         getitem body ''data'' = Inr (JArr (map (\<lambda>i. DATA_CACHE w' ! i) ?pd)) \<and>
         getitem body ''count'' = Inr (JInt (int (length ?pd)))"
  proof (intro allI impI)
    fix body
    assume ok: "r = Inr body"
    with 3 have ne: "?pd \<noteq> []" by auto
    with 4 ok have "JSONResponse render (page_content date page limit
                  (map (\<lambda>i. DATA_CACHE w' ! i) ?pd)) = Inr body"
      by simp
    then have "body = page_content date page limit (map (\<lambda>i. DATA_CACHE w' ! i) ?pd)"
      by (rule JSONResponse_Inr)
    with ne show "?pd \<noteq> [] \<and>
         getitem body ''data'' = Inr (JArr (map (\<lambda>i. DATA_CACHE w' ! i) ?pd)) \<and>
         getitem body ''count'' = Inr (JInt (int (length ?pd)))"
      by (simp add: page_content_def)
  qed
  have "int (length data) \<le> (page - 1) * limit \<longrightarrow> ?pd = []"
    by auto
  with 3 have 6: "int (length data) \<le> (page - 1) * limit \<longrightarrow>
      r = Inl (HTTPException 404 ''No more records'')"
    by blast
  from 1 2 3 4 5 6 show ?thesis unfolding s by blast
qed

theorem listing_page_witness:
  "payment_store (DATA_CACHE scenario_world) \<and>
   filter_data ascii_lower None None None (DATA_CACHE scenario_world) = Inr [0, 1, 2] \<and>
   py_slice [0, 1, 2 :: nat] ((2 - 1) * 2) (2 * 2) = [2] \<and>
   response_field ''data''
       (fst (get_payments ascii_lower render_ascii None 2 2 None None scenario_world))
     = Inr (JArr [scenario_cache ! 2]) \<and>
   response_field ''count''
       (fst (get_payments ascii_lower render_ascii None 2 2 None None scenario_world))
     = Inr (JInt 1) \<and>
   py_slice [0, 1, 2 :: nat] ((3 - 1) * 2) (3 * 2) = [] \<and>
   fst (get_payments ascii_lower render_ascii None 3 2 None None scenario_world)
     = Inl (HTTPException 404 ''No more records'') \<and>
   payment_store (DATA_CACHE nan_world) \<and>
   filter_data ascii_lower None None None (DATA_CACHE nan_world) = Inr [0] \<and>
   py_slice [0 :: nat] ((1 - 1) * 10) (1 * 10) = [0] \<and>
   fst (get_payments ascii_lower render_ascii None 1 10 None None nan_world)
     = Inl (ValueError ''Out of range float values are not JSON compliant'')"
proof -
  have store: "payment_store (DATA_CACHE scenario_world)"
    using payment_store_scenario by (simp add: scenario_world_def)
  have data: "filter_data ascii_lower None None None (DATA_CACHE scenario_world) = Inr [0, 1, 2]"
    by (simp add: eval_defs)
  have slice: "py_slice [0, 1, 2 :: nat] ((2 - 1) * 2) (2 * 2) = [2]"
      "py_slice [0, 1, 2 :: nat] ((3 - 1) * 2) (3 * 2) = []"
      "py_slice [0 :: nat] ((1 - 1) * 10) (1 * 10) = [0]"
    by (simp_all add: py_slice_def)
  obtain r w' where run:
      "get_payments ascii_lower render_ascii None 2 2 None None scenario_world = (r, w')"
    by (cases "get_payments ascii_lower render_ascii None 2 2 None None scenario_world")
  obtain r3 w3 where run3:
      "get_payments ascii_lower render_ascii None 3 2 None None scenario_world = (r3, w3)"
    by (cases "get_payments ascii_lower render_ascii None 3 2 None None scenario_world")
  have w': "DATA_CACHE w' ! 2 = scenario_cache ! 2" and ok: "\<exists>body. r = Inr body"
    using run by (auto simp: eval_defs)
  from ok listing_page [OF store _ _ _ run data]
  have "\<exists>body. r = Inr body \<and> getitem body ''data'' = Inr (JArr (map (\<lambda>i. DATA_CACHE w' ! i) [2]))
         \<and> getitem body ''count'' = Inr (JInt 1)"
    by (auto simp: py_slice_def)
  with w' run have page2:
    "response_field ''data''
       (fst (get_payments ascii_lower render_ascii None 2 2 None None scenario_world))
       = Inr (JArr [scenario_cache ! 2])"
    "response_field ''count''
       (fst (get_payments ascii_lower render_ascii None 2 2 None None scenario_world))
     = Inr (JInt 1)"
    by (auto simp: response_field_def)
  from listing_page [OF store _ _ _ run3 data]
  have "r3 = Inl (HTTPException 404 ''No more records'')"
    by (simp add: py_slice_def)
  with run3 have page3:
    "fst (get_payments ascii_lower render_ascii None 3 2 None None scenario_world)
     = Inl (HTTPException 404 ''No more records'')"
    by simp
  have nstore: "payment_store (DATA_CACHE nan_world)"
    by (simp add: nan_world_def payment_store_def payment_record_def is_str_def)
  have ndata: "filter_data ascii_lower None None None (DATA_CACHE nan_world) = Inr [0]"
    by (simp add: eval_defs)
  obtain rn wn where runn:
      "get_payments ascii_lower render_ascii None 1 10 None None nan_world = (rn, wn)"
    by (cases "get_payments ascii_lower render_ascii None 1 10 None None nan_world")
  have wn: "DATA_CACHE wn = DATA_CACHE nan_world"
    using runn by (auto simp: eval_defs)
  from listing_page [OF nstore _ _ _ runn ndata]
  have "rn = JSONResponse render_ascii (page_content None 1 10 (map (\<lambda>i. DATA_CACHE wn ! i) [0]))"
    by (simp add: py_slice_def)
  then have "rn = Inl (ValueError ''Out of range float values are not JSON compliant'')"
    by (simp add: wn nan_world_def JSONResponse_def page_content_def render_ascii_def)
  with runn have nan: "fst (get_payments ascii_lower render_ascii None 1 10 None None nan_world)
     = Inl (ValueError ''Out of range float values are not JSON compliant'')"
    by simp
  from store data slice page2 page3 nstore ndata nan show ?thesis by blast
qed

text \<open>
  C8, as amended. A successful response of \<^verbatim>\<open>get_payments\<close> is the dict with the keys
  \<open>date\<close> (the date filter of the request, null when absent), \<open>page\<close>, \<open>limit\<close>,
  \<open>count\<close> (the number of records of the page) and \<open>data\<close> (the records of the page), in
  this order, and no other key: the filters \<open>psp_name\<close> and \<open>status\<close> are not in it.
\<close>

theorem listing_response_fields:
  assumes "get_payments lower render date page limit psp_name status w = (Inr body, w')"
  shows "\<exists>page_data. page_data \<noteq> [] \<and>
     body = JObj [(''date'', json_of_optional date),
                  (''page'', JInt page),
                  (''limit'', JInt limit),
                  (''count'', JInt (int (length page_data))),
                  (''data'', JArr (map (\<lambda>i. DATA_CACHE w' ! i) page_data))] \<and>
     getitem body ''psp_name'' = Inl (KeyError ''psp_name'') \<and>
     getitem body ''status'' = Inl (KeyError ''status'')"
proof -
  from assms have valid: "\<not> (page < 1 \<or> limit < 1 \<or> 100 < limit)"
    by (auto simp: get_payments_def raiseE_def)
  let ?rest = "\<lambda>data. let start = (page - 1) * limit; stop = page * limit;
            page_data = py_slice data start stop
        in if page_data = [] then raiseE (HTTPException 404 ''No more records'')
           else response_content render date page limit page_data"
  from assms valid have "bindE (\<lambda>w. (filter_data lower date psp_name status (DATA_CACHE w), w)) (\<lambda>data.
        bindE (update_loop data False) (\<lambda>updated_any.
        bindE (if updated_any then save_data_async else returnE ()) (\<lambda>_. ?rest data))) w
      = (Inr body, w')"
    by (simp add: get_payments_def)
  then obtain data w1 where
    "bindE (update_loop data False) (\<lambda>updated_any.
        bindE (if updated_any then save_data_async else returnE ()) (\<lambda>_. ?rest data)) w1
      = (Inr body, w')"
    by (blast dest: bindE_Inr)
  then obtain updated_any w2 where
    "bindE (if updated_any then save_data_async else returnE ()) (\<lambda>_. ?rest data) w2
      = (Inr body, w')"
    by (blast dest: bindE_Inr)
  then obtain w3 where rest: "?rest data w3 = (Inr body, w')"
    by (blast dest: bindE_Inr)
  let ?pd = "py_slice data ((page - 1) * limit) (page * limit)"
  from rest have ne: "?pd \<noteq> []"
    by (auto simp: Let_def raiseE_def split: if_splits)
  with rest have "response_content render date page limit ?pd w3 = (Inr body, w')"
    by (simp add: Let_def)
  then have "body = JObj [(''date'', json_of_optional date),
                  (''page'', JInt page),
                  (''limit'', JInt limit),
                  (''count'', JInt (int (length ?pd))),
                  (''data'', JArr (map (\<lambda>i. DATA_CACHE w' ! i) ?pd))]"
    by (auto simp: response_content_def page_content_def dest!: JSONResponse_Inr)
  with ne show ?thesis by auto
qed

theorem listing_response_fields_witness:
  "response_field ''date''
      (fst (get_payments ascii_lower render_ascii (Some ''2025-01'') 1 10 (Some ''stripe'') (Some ''pending'') scenario_world))
     = Inr (JStr ''2025-01'') \<and>
   response_field ''page''
      (fst (get_payments ascii_lower render_ascii (Some ''2025-01'') 1 10 (Some ''stripe'') (Some ''pending'') scenario_world))
     = Inr (JInt 1) \<and>
   response_field ''limit''
      (fst (get_payments ascii_lower render_ascii (Some ''2025-01'') 1 10 (Some ''stripe'') (Some ''pending'') scenario_world))
     = Inr (JInt 10) \<and>
   response_field ''count''
      (fst (get_payments ascii_lower render_ascii (Some ''2025-01'') 1 10 (Some ''stripe'') (Some ''pending'') scenario_world))
     = Inr (JInt 2)"
proof -
  let ?run = "get_payments ascii_lower render_ascii (Some ''2025-01'') 1 10 (Some ''stripe'') (Some ''pending'') scenario_world"
  have "\<exists>body. fst ?run = Inr body"
    by (simp add: eval_defs)
  then obtain body w' where run: "?run = (Inr body, w')"
    by (cases ?run) auto
  have "response_field ''count'' (fst ?run) = Inr (JInt 2)"
    by (simp add: eval_defs response_field_def)
  with listing_response_fields [OF run] run show ?thesis
    by (auto simp: response_field_def json_of_optional_def)
qed

text \<open>
  The claim as stated fails: the response to a request that carries the three filters has
  no key \<open>psp_name\<close> and no key \<open>status\<close>.
\<close>

theorem response_echo_counterexample:
  "response_field ''count''
      (fst (get_payments ascii_lower render_ascii (Some ''2025-01'') 1 10 (Some ''stripe'') (Some ''pending'') scenario_world))
     = Inr (JInt 2) \<and>
   response_field ''psp_name''
      (fst (get_payments ascii_lower render_ascii (Some ''2025-01'') 1 10 (Some ''stripe'') (Some ''pending'') scenario_world))
     = Inl (KeyError ''psp_name'') \<and>
   response_field ''status''
      (fst (get_payments ascii_lower render_ascii (Some ''2025-01'') 1 10 (Some ''stripe'') (Some ''pending'') scenario_world))
     = Inl (KeyError ''status'')"
  by (simp add: eval_defs response_field_def)

section \<open>The claim about the lookup\<close>

text \<open>
  C7. On a store of payment records, \<^verbatim>\<open>get_payment\<close> returns the first record whose id
  is the one asked for; the state it leaves is, but for the threads, the state after one
  call of the simulator on that record; it starts one writer thread when the status of the
  record has changed and none otherwise. When no record has the id, it raises the 404
  exception with detail \<open>Transaction not found\<close> and leaves the state as it is.
\<close>

theorem get_payment_by_id:
  assumes "payment_store (DATA_CACHE w)" and "get_payment txn_id w = (r, w')"
  shows "(\<forall>i. i < length (DATA_CACHE w) \<and>
            getitem (DATA_CACHE w ! i) ''id'' = Inr (JStr txn_id) \<and>
            (\<forall>j<i. getitem (DATA_CACHE w ! j) ''id'' \<noteq> Inr (JStr txn_id)) \<longrightarrow>
          r = Inr i \<and>
          w' = (snd (maybe_update_status i w))\<lparr>threads := threads w'\<rparr> \<and>
          threads w' = threads w @ (if status_at w' i \<noteq> status_at w i then [Created] else [])) \<and>
         ((\<forall>i<length (DATA_CACHE w). getitem (DATA_CACHE w ! i) ''id'' \<noteq> Inr (JStr txn_id)) \<longrightarrow>
          r = Inl (HTTPException 404 ''Transaction not found'') \<and> w' = w)"
proof (intro conjI allI impI)
  assume none: "\<forall>i<length (DATA_CACHE w). getitem (DATA_CACHE w ! i) ''id'' \<noteq> Inr (JStr txn_id)"
  have "get_payment_loop txn_id ([0 ..< length (DATA_CACHE w)] @ []) w = get_payment_loop txn_id [] w"
    using assms(1) none by (intro get_payment_loop_miss) simp_all
  with assms(2) show "r = Inl (HTTPException 404 ''Transaction not found'')" "w' = w"
    by (simp_all add: get_payment_def raiseE_def)
next
  fix i
  assume i: "i < length (DATA_CACHE w) \<and>
            getitem (DATA_CACHE w ! i) ''id'' = Inr (JStr txn_id) \<and>
            (\<forall>j<i. getitem (DATA_CACHE w ! j) ''id'' \<noteq> Inr (JStr txn_id))"
  let ?w1 = "snd (maybe_update_status i w)"
  from i have "i \<le> length (DATA_CACHE w)" by simp
  then have "[0 ..< i + (length (DATA_CACHE w) - i)] = [0 ..< i] @ [i ..< i + (length (DATA_CACHE w) - i)]"
    by (intro upt_add_eq_append) simp
  with i have "[0 ..< length (DATA_CACHE w)] = [0 ..< i] @ [i ..< length (DATA_CACHE w)]"
    by simp
  moreover from i have "[i ..< length (DATA_CACHE w)] = i # [Suc i ..< length (DATA_CACHE w)]"
    by (intro upt_conv_Cons) simp
  ultimately
  have split: "[0 ..< length (DATA_CACHE w)] = [0 ..< i] @ i # [Suc i ..< length (DATA_CACHE w)]"
    by simp
  have "get_payment_loop txn_id ([0 ..< i] @ i # [Suc i ..< length (DATA_CACHE w)]) w
      = get_payment_loop txn_id (i # [Suc i ..< length (DATA_CACHE w)]) w"
    using assms(1) i by (intro get_payment_loop_miss) auto
  also have "\<dots> = (Inr i,
        if status_at ?w1 i \<noteq> status_at w i then ?w1\<lparr>threads := threads ?w1 @ [Created]\<rparr> else ?w1)"
    using assms(1) i get_payment_loop_hit [of w i txn_id "[Suc i ..< length (DATA_CACHE w)]"]
    unfolding Let_def by blast
  finally have res: "(r, w') = (Inr i,
        if status_at ?w1 i \<noteq> status_at w i then ?w1\<lparr>threads := threads ?w1 @ [Created]\<rparr> else ?w1)"
    using assms(2) split by (simp add: get_payment_def)
  then show "r = Inr i" by simp
  from res have w': "w' = (if status_at ?w1 i \<noteq> status_at w i
       then ?w1\<lparr>threads := threads ?w1 @ [Created]\<rparr> else ?w1)"
    by simp
  have th: "threads ?w1 = threads w"
    using invocations_threads [of "[i]" w] by simp
  show "w' = ?w1\<lparr>threads := threads w'\<rparr>"
    by (subst (1 2) w') simp
  have "status_at w' i = status_at ?w1 i"
    by (subst w') (simp add: status_at_def)
  then show "threads w' = threads w @ (if status_at w' i \<noteq> status_at w i then [Created] else [])"
    by (subst w') (simp add: th)
qed


theorem get_payment_by_id_witness:
  "payment_store (DATA_CACHE eager_world) \<and>
   getitem (DATA_CACHE eager_world ! 2) ''id'' = Inr (JStr ''t3'') \<and>
   fst (get_payment ''t3'' eager_world) = Inr 2 \<and>
   status_at eager_world 2 = Inr (JStr ''pending'') \<and>
   status_at (snd (get_payment ''t3'' eager_world)) 2 = Inr (JStr ''declined'') \<and>
   threads (snd (get_payment ''t3'' eager_world)) = [Created] \<and>
   get_payment ''t2'' eager_world = (Inr 1, eager_world) \<and>
   get_payment ''t9'' eager_world
     = (Inl (HTTPException 404 ''Transaction not found''), eager_world)"
proof -
  have store: "payment_store (DATA_CACHE eager_world)"
    using payment_store_scenario by (simp add: eager_world_def scenario_world_def)
  have ids: "getitem (DATA_CACHE eager_world ! 0) ''id'' = Inr (JStr ''t1'')"
      "getitem (DATA_CACHE eager_world ! 1) ''id'' = Inr (JStr ''t2'')"
      "getitem (DATA_CACHE eager_world ! 2) ''id'' = Inr (JStr ''t3'')"
      "length (DATA_CACHE eager_world) = 3"
    by (simp_all add: eval_defs)
  have before: "status_at eager_world 2 = Inr (JStr ''pending'')"
    by (simp add: status_at_def eval_defs)
  obtain r3 w3 where run3: "get_payment ''t3'' eager_world = (r3, w3)"
    by (cases "get_payment ''t3'' eager_world")
  have first3: "\<forall>j<2. getitem (DATA_CACHE eager_world ! j) ''id'' \<noteq> Inr (JStr ''t3'')"
    using ids by (auto simp: less_Suc_eq numeral_2_eq_2)
  from get_payment_by_id [OF store run3] ids first3
  have found: "r3 = Inr 2 \<and>
      threads w3 = threads eager_world @
        (if status_at w3 2 \<noteq> status_at eager_world 2 then [Created] else [])"
    by auto
  have after: "status_at w3 2 = Inr (JStr ''declined'')"
    using run3 by (auto simp: get_payment_def eval_defs status_at_def)
  with found before have t3: "fst (get_payment ''t3'' eager_world) = Inr 2"
      "status_at (snd (get_payment ''t3'' eager_world)) 2 = Inr (JStr ''declined'')"
      "threads (snd (get_payment ''t3'' eager_world)) = [Created]"
    using run3 by (simp_all add: eval_defs)
  have t2: "get_payment ''t2'' eager_world = (Inr 1, eager_world)"
    by (simp add: get_payment_def eval_defs)
  obtain r9 w9 where run9: "get_payment ''t9'' eager_world = (r9, w9)"
    by (cases "get_payment ''t9'' eager_world")
  have none: "\<forall>i<length (DATA_CACHE eager_world).
       getitem (DATA_CACHE eager_world ! i) ''id'' \<noteq> Inr (JStr ''t9'')"
    using ids by (auto simp: less_Suc_eq numeral_3_eq_3 numeral_2_eq_2)
  from get_payment_by_id [OF store run9] none
  have "r9 = Inl (HTTPException 404 ''Transaction not found'') \<and> w9 = eager_world"
    by blast
  with run9 have t9: "get_payment ''t9'' eager_world
     = (Inl (HTTPException 404 ''Transaction not found''), eager_world)"
    by simp
  from store ids(3) before t3 t2 t9 show ?thesis by blast
qed

section \<open>The claim about the load\<close>

text \<open>
  C9, as amended. When the file does not exist, \<^verbatim>\<open>load_data_once\<close> raises
  FileNotFoundError, with the cache empty. When the file is a complete stream and
  \<^verbatim>\<open>json.loads\<close> raises nothing but JSONDecodeError on its lines, the load returns
  normally: the cache holds, in the order of the file, the values of the lines that are not
  blank and decode, so every such line is loaded; a line on which JSONDecodeError is raised
  is dropped with a message; and the last message reports the number of records loaded.
  Any other exception of \<^verbatim>\<open>json.loads\<close> is not caught: at the first line on which one is
  raised the load ends with that exception, with the records of the lines before it in the
  cache, the lines after it not read and no number reported. A file that cannot be read to
  its end ends the load with the exception of its reader, after the lines read before it.
\<close>

theorem load_data_once_result:
  "(payments_file w = None \<longrightarrow>
      load_data_once strip loads w =
        (Inl (FileNotFoundError ''File not found: payments.jsonl.gz''), w\<lparr>DATA_CACHE := []\<rparr>)) \<and>
   (\<forall>body. payments_file w = Some (Complete body) \<and>
        (\<forall>l\<in>set (file_lines body). \<not> stops strip loads l) \<longrightarrow>
      fst (load_data_once strip loads w) = Inr () \<and>
      DATA_CACHE (snd (load_data_once strip loads w)) = decoded strip loads (file_lines body) \<and>
      (\<forall>l v. l \<in> set (file_lines body) \<and> strip l \<noteq> [] \<and> loads (strip l) = Inr v \<longrightarrow>
          v \<in> set (DATA_CACHE (snd (load_data_once strip loads w)))) \<and>
      stdout (snd (load_data_once strip loads w)) =
        stdout w @ warnings strip loads (file_lines body) @
          [Loaded (length (DATA_CACHE (snd (load_data_once strip loads w))))]) \<and>
   (\<forall>f pre l post e. payments_file w = Some f \<and> file_lines (readable f) = pre @ l # post \<and>
        (\<forall>x\<in>set pre. \<not> stops strip loads x) \<and> stops strip loads l \<and>
        loads (strip l) = Inl e \<longrightarrow>
      load_data_once strip loads w =
        (Inl e, w\<lparr>DATA_CACHE := decoded strip loads pre,
                   stdout := stdout w @ warnings strip loads pre\<rparr>)) \<and>
   (\<forall>body e. payments_file w = Some (Broken body e) \<and>
        (\<forall>l\<in>set (file_lines body). \<not> stops strip loads l) \<longrightarrow>
      load_data_once strip loads w =
        (Inl e, w\<lparr>DATA_CACHE := decoded strip loads (file_lines body),
                   stdout := stdout w @ warnings strip loads (file_lines body)\<rparr>))"
proof (intro conjI allI impI)
  assume "payments_file w = None"
  then show "load_data_once strip loads w =
        (Inl (FileNotFoundError ''File not found: payments.jsonl.gz''), w\<lparr>DATA_CACHE := []\<rparr>)"
    by (simp add: load_data_once_def)
next
  fix body
  assume a: "payments_file w = Some (Complete body) \<and>
        (\<forall>l\<in>set (file_lines body). \<not> stops strip loads l)"
  then have through: "\<forall>l\<in>set (file_lines body). \<not> stops strip loads l"
    by simp
  from a have run: "load_data_once strip loads w =
      (Inr (), w\<lparr>DATA_CACHE := decoded strip loads (file_lines body),
                  stdout := stdout w @ warnings strip loads (file_lines body) @
                     [Loaded (length (decoded strip loads (file_lines body)))]\<rparr>)"
    by (simp add: load_data_once_def load_lines_through [OF through] Let_def)
  show "fst (load_data_once strip loads w) = Inr ()"
    by (simp add: run)
  show c: "DATA_CACHE (snd (load_data_once strip loads w)) = decoded strip loads (file_lines body)"
    by (simp add: run)
  show "stdout (snd (load_data_once strip loads w)) =
        stdout w @ warnings strip loads (file_lines body) @
          [Loaded (length (DATA_CACHE (snd (load_data_once strip loads w))))]"
    by (simp add: run)
  fix l v
  assume "l \<in> set (file_lines body) \<and> strip l \<noteq> [] \<and> loads (strip l) = Inr v"
  then have "v \<in> set (decoded strip loads (file_lines body))"
    by (force simp: decoded_def)
  then show "v \<in> set (DATA_CACHE (snd (load_data_once strip loads w)))"
    by (simp add: c)
next
  fix f pre l post e
  assume a: "payments_file w = Some f \<and> file_lines (readable f) = pre @ l # post \<and>
        (\<forall>x\<in>set pre. \<not> stops strip loads x) \<and> stops strip loads l \<and>
        loads (strip l) = Inl e"
  then have pre: "\<forall>x\<in>set pre. \<not> stops strip loads x" and l: "stops strip loads l"
    and e: "loads (strip l) = Inl e"
    by simp_all
  from a show "load_data_once strip loads w =
        (Inl e, w\<lparr>DATA_CACHE := decoded strip loads pre,
                   stdout := stdout w @ warnings strip loads pre\<rparr>)"
    by (simp add: load_data_once_def load_lines_upto [OF pre l e] Let_def)
next
  fix body e
  assume a: "payments_file w = Some (Broken body e) \<and>
        (\<forall>l\<in>set (file_lines body). \<not> stops strip loads l)"
  then have through: "\<forall>l\<in>set (file_lines body). \<not> stops strip loads l"
    by simp
  from a show "load_data_once strip loads w =
        (Inl e, w\<lparr>DATA_CACHE := decoded strip loads (file_lines body),
                   stdout := stdout w @ warnings strip loads (file_lines body)\<rparr>)"
    by (simp add: load_data_once_def load_lines_through [OF through] Let_def)
qed

theorem load_data_once_result_witness:
  \<open>load_data_once ascii_strip sample_loads scenario_world
     = (Inl (FileNotFoundError ''File not found: payments.jsonl.gz''),
        scenario_world\<lparr>DATA_CACHE := []\<rparr>) \<and>
   fst (load_data_once ascii_strip sample_loads
          (scenario_world\<lparr>payments_file := Some (Complete sample_text)\<rparr>)) = Inr () \<and>
   DATA_CACHE (snd (load_data_once ascii_strip sample_loads
          (scenario_world\<lparr>payments_file := Some (Complete sample_text)\<rparr>)))
     = [JObj [(''id'', JStr ''t1'')], JObj [(''id'', JStr ''t2'')]] \<and>
   stdout (snd (load_data_once ascii_strip sample_loads
          (scenario_world\<lparr>payments_file := Some (Complete sample_text)\<rparr>)))
     = [Skipping_invalid_line ''Expecting value: line 1 column 1 (char 0)'', Loaded 2] \<and>
   load_data_once ascii_strip sample_loads
       (scenario_world\<lparr>payments_file := Some (Complete big_text)\<rparr>)
     = (Inl (ValueError ''Exceeds the limit (4300 digits) for integer string conversion: value has 4301 digits; use sys.set_int_max_str_digits() to increase the limit''),
        scenario_world\<lparr>payments_file := Some (Complete big_text),
          DATA_CACHE := [JObj [(''id'', JStr ''t1'')]]\<rparr>) \<and>
   load_data_once ascii_strip sample_loads
       (scenario_world\<lparr>payments_file := Some (Broken sample_text EOFError)\<rparr>)
     = (Inl EOFError,
        scenario_world\<lparr>payments_file := Some (Broken sample_text EOFError),
          DATA_CACHE := [JObj [(''id'', JStr ''t1'')], JObj [(''id'', JStr ''t2'')]],
          stdout := [Skipping_invalid_line ''Expecting value: line 1 column 1 (char 0)'']\<rparr>)\<close>
proof -
  let ?s = ascii_strip and ?l = sample_loads
  let ?w = "scenario_world\<lparr>payments_file := Some (Complete sample_text)\<rparr>"
  let ?b = "scenario_world\<lparr>payments_file := Some (Complete big_text)\<rparr>"
  let ?c = "scenario_world\<lparr>payments_file := Some (Broken sample_text EOFError)\<rparr>"
  have absent: "payments_file scenario_world = None"
    by (simp add: scenario_world_def)
  have out: "stdout scenario_world = []" "stdout ?w = []" "stdout ?b = []" "stdout ?c = []"
    by (simp_all add: scenario_world_def)
  from load_data_once_result [of scenario_world ?s ?l] absent
  have 1: "load_data_once ?s ?l scenario_world
     = (Inl (FileNotFoundError ''File not found: payments.jsonl.gz''),
        scenario_world\<lparr>DATA_CACHE := []\<rparr>)"
    by blast
  have "payments_file ?w = Some (Complete sample_text) \<and>
      (\<forall>l\<in>set (file_lines sample_text). \<not> stops ?s ?l l)"
    by (simp add: sample_text_lines)
  with load_data_once_result [of ?w ?s ?l]
  have 2: "fst (load_data_once ?s ?l ?w) = Inr () \<and>
      DATA_CACHE (snd (load_data_once ?s ?l ?w)) = decoded ?s ?l (file_lines sample_text) \<and>
      stdout (snd (load_data_once ?s ?l ?w)) =
        stdout ?w @ warnings ?s ?l (file_lines sample_text) @
          [Loaded (length (DATA_CACHE (snd (load_data_once ?s ?l ?w))))]"
    by blast
  have \<open>payments_file ?b = Some (Complete big_text) \<and>
      file_lines (readable (Complete big_text))
        = [''{"id": "t1"}'' @ [CHR 0x0A]] @ (big_integer @ [CHR 0x0A]) # [''{"id": "t2"}'' @ [CHR 0x0A]] \<and>
      (\<forall>x\<in>set [''{"id": "t1"}'' @ [CHR 0x0A]]. \<not> stops ?s ?l x) \<and>
      stops ?s ?l (big_integer @ [CHR 0x0A]) \<and>
      ?l (?s (big_integer @ [CHR 0x0A]))
        = Inl (ValueError ''Exceeds the limit (4300 digits) for integer string conversion: value has 4301 digits; use sys.set_int_max_str_digits() to increase the limit'')\<close>
    apply (simp only: readable.simps file_lines_big_text stops_def big_text_lines)
    apply (simp add: big_integer_facts sample_loads_def ascii_strip_def ascii_isspace_def)
    done
  with load_data_once_result [of ?b ?s ?l]
  have 3: \<open>load_data_once ?s ?l ?b =
      (Inl (ValueError ''Exceeds the limit (4300 digits) for integer string conversion: value has 4301 digits; use sys.set_int_max_str_digits() to increase the limit''),
       ?b\<lparr>DATA_CACHE := decoded ?s ?l [''{"id": "t1"}'' @ [CHR 0x0A]],
           stdout := stdout ?b @ warnings ?s ?l [''{"id": "t1"}'' @ [CHR 0x0A]]\<rparr>)\<close>
    by blast
  have pre: \<open>decoded ?s ?l [''{"id": "t1"}'' @ [CHR 0x0A]] = [JObj [(''id'', JStr ''t1'')]]\<close>
    \<open>warnings ?s ?l [''{"id": "t1"}'' @ [CHR 0x0A]] = []\<close>
    by (simp_all add: decoded_def warnings_def sample_loads_def ascii_strip_def ascii_isspace_def)
  have "payments_file ?c = Some (Broken sample_text EOFError) \<and>
      (\<forall>l\<in>set (file_lines sample_text). \<not> stops ?s ?l l)"
    by (simp add: sample_text_lines)
  with load_data_once_result [of ?c ?s ?l]
  have 4: "load_data_once ?s ?l ?c =
      (Inl EOFError, ?c\<lparr>DATA_CACHE := decoded ?s ?l (file_lines sample_text),
          stdout := stdout ?c @ warnings ?s ?l (file_lines sample_text)\<rparr>)"
    by blast
  have r1: "load_data_once ?s ?l scenario_world
     = (Inl (FileNotFoundError ''File not found: payments.jsonl.gz''),
        scenario_world\<lparr>DATA_CACHE := []\<rparr>)"
    by (rule 1)
  have r2: \<open>fst (load_data_once ?s ?l ?w) = Inr () \<and>
      DATA_CACHE (snd (load_data_once ?s ?l ?w))
        = [JObj [(''id'', JStr ''t1'')], JObj [(''id'', JStr ''t2'')]] \<and>
      stdout (snd (load_data_once ?s ?l ?w))
        = [Skipping_invalid_line ''Expecting value: line 1 column 1 (char 0)'', Loaded 2]\<close>
    using 2 by (simp add: sample_text_lines out sample_records_def)
  have r3: \<open>load_data_once ?s ?l ?b
     = (Inl (ValueError ''Exceeds the limit (4300 digits) for integer string conversion: value has 4301 digits; use sys.set_int_max_str_digits() to increase the limit''),
        scenario_world\<lparr>payments_file := Some (Complete big_text),
          DATA_CACHE := [JObj [(''id'', JStr ''t1'')]]\<rparr>)\<close>
    unfolding 3 pre by (simp add: scenario_world_def)
  have r4: \<open>load_data_once ?s ?l ?c
     = (Inl EOFError,
        scenario_world\<lparr>payments_file := Some (Broken sample_text EOFError),
          DATA_CACHE := [JObj [(''id'', JStr ''t1'')], JObj [(''id'', JStr ''t2'')]],
          stdout := [Skipping_invalid_line ''Expecting value: line 1 column 1 (char 0)'']\<rparr>)\<close>
    unfolding 4 by (simp add: sample_text_lines sample_records_def scenario_world_def)
  from r1 r2 r3 r4 show ?thesis
    by blast
qed

text \<open>
  C9 as stated does not hold: a line that fails to decode can abort the load. In a file of
  three lines whose second line is an integer of 4301 digits, \<^verbatim>\<open>json.loads\<close> raises
  ValueError on the second line, which \<^verbatim>\<open>except json.JSONDecodeError\<close> does not catch: the
  load ends with it, and the third line, which is valid, is not loaded.
\<close>

theorem load_abort_counterexample:
  \<open>file_lines big_text =
     [''{"id": "t1"}'' @ [CHR 0x0A], big_integer @ [CHR 0x0A], ''{"id": "t2"}'' @ [CHR 0x0A]] \<and>
   sample_loads (ascii_strip (''{"id": "t2"}'' @ [CHR 0x0A])) = Inr (JObj [(''id'', JStr ''t2'')]) \<and>
   load_data_once ascii_strip sample_loads
       (scenario_world\<lparr>payments_file := Some (Complete big_text)\<rparr>)
     = (Inl (ValueError ''Exceeds the limit (4300 digits) for integer string conversion: value has 4301 digits; use sys.set_int_max_str_digits() to increase the limit''),
        scenario_world\<lparr>payments_file := Some (Complete big_text),
          DATA_CACHE := [JObj [(''id'', JStr ''t1'')]]\<rparr>)\<close>
  apply (simp only: file_lines_big_text big_text_lines)
  apply (simp add: load_data_once_def load_lines_big_text scenario_world_def)
  done

section \<open>The claims about persistence\<close>

text \<open>
  C5, as amended. Every call of \<^verbatim>\<open>save_data_async\<close> starts one new writer thread and
  changes nothing else: \<open>k\<close> calls start \<open>k\<close> threads, whatever writers there are already.
  Requests are not merged and the number of writes in flight is not bounded: all \<open>k\<close> new
  writers can have the file open at the same time, next to the writers that had it open
  before. And each of the \<open>k\<close> writers performs its own complete write: when they run one
  after the other on a cache that does not change, then for every \<open>j < k\<close>, once the first
  \<open>j + 1\<close> of them have run, these are finished, the others are still to start, and the
  file holds the complete text that the last of them has written.
\<close>

theorem one_writer_per_request:
  "requests k w = w\<lparr>threads := threads w @ replicate k Created\<rparr> \<and>
   in_flight (threads (schedule dumps
       (map (\<lambda>t. (t, fl)) [length (threads w) ..< length (threads w) + k]) (requests k w)))
     = in_flight (threads w) + k \<and>
   (\<forall>j<k.
      payments_file (schedule dumps
          (one_by_one (length (DATA_CACHE w)) fl [length (threads w) ..< length (threads w) + Suc j])
          (requests k w))
        = Some (Complete (serialized dumps (DATA_CACHE w))) \<and>
      drop (length (threads w)) (threads (schedule dumps
          (one_by_one (length (DATA_CACHE w)) fl [length (threads w) ..< length (threads w) + Suc j])
          (requests k w)))
        = replicate (Suc j) Finished @ replicate (k - Suc j) Created)"
proof (intro conjI allI impI)
  show r: "requests k w = w\<lparr>threads := threads w @ replicate k Created\<rparr>"
    by (rule requests_threads)
  then have th: "threads (requests k w) = threads w @ replicate k Created"
    by simp
  from open_all [OF th, of k dumps fl]
  have "map disturbed (threads (schedule dumps
       (map (\<lambda>t. (t, fl)) [length (threads w) ..< length (threads w) + k]) (requests k w)))
     = map disturbed (threads w) @ replicate k (Writing 0 [] False)"
    by simp
  then have "in_flight (map disturbed (threads (schedule dumps
       (map (\<lambda>t. (t, fl)) [length (threads w) ..< length (threads w) + k]) (requests k w))))
     = in_flight (threads w) + k"
    by (simp add: in_flight_append in_flight_replicate in_flight_disturbed)
  then show "in_flight (threads (schedule dumps
       (map (\<lambda>t. (t, fl)) [length (threads w) ..< length (threads w) + k]) (requests k w)))
     = in_flight (threads w) + k"
    by (simp only: in_flight_disturbed)
  fix j
  assume j: "j < k"
  let ?s = "schedule dumps
      (one_by_one (length (DATA_CACHE w)) fl [length (threads w) ..< length (threads w) + Suc j])
      (requests k w)"
  have c: "DATA_CACHE (requests k w) = DATA_CACHE w"
    by (simp add: r)
  from j have "Suc j \<le> k"
    by simp
  from run_all [OF th this, of dumps fl]
  obtain ws' where len: "length ws' = length (threads w)"
    and s: "?s = (requests k w)\<lparr>payments_file := Some (Complete (serialized dumps (DATA_CACHE w))),
           threads := ws' @ replicate (Suc j) Finished @ replicate (k - Suc j) Created\<rparr>"
    unfolding c by auto
  show "payments_file ?s = Some (Complete (serialized dumps (DATA_CACHE w)))"
    by (simp only: s) simp
  show "drop (length (threads w)) (threads ?s)
      = replicate (Suc j) Finished @ replicate (k - Suc j) Created"
    using len by (simp only: s) simp
qed

theorem one_writer_per_request_witness:
  \<open>threads (requests 2 stored_world) = [Created, Created] \<and>
   in_flight (threads (schedule sample_dumps [(0, Buffered), (1, Buffered)]
       (requests 2 stored_world))) = 2 \<and>
   (1::nat) < 2 \<and>
   payments_file (schedule sample_dumps (one_by_one 2 Buffered [0, 1]) (requests 2 stored_world))
     = Some (Complete (''{"id": "t1"}'' @ [CHR 0x0A] @ ''{"id": "t2"}'' @ [CHR 0x0A])) \<and>
   threads (schedule sample_dumps (one_by_one 2 Buffered [0, 1]) (requests 2 stored_world))
     = [Finished, Finished]\<close>
proof -
  note t = one_writer_per_request [of 2 stored_world sample_dumps Buffered]
  have e: "[length (threads stored_world) ..< length (threads stored_world) + 2] = [0, 1]"
    "[length (threads stored_world) ..< length (threads stored_world) + Suc 1] = [0, 1]"
    "in_flight (threads stored_world) + 2 = 2"
    "length (DATA_CACHE stored_world) = 2"
    "length (threads stored_world) = 0"
    by (simp_all add: stored_world_fields sample_dumps_records upt_rec)
  have ser: \<open>serialized sample_dumps (DATA_CACHE stored_world)
      = ''{"id": "t1"}'' @ [CHR 0x0A] @ ''{"id": "t2"}'' @ [CHR 0x0A]\<close>
    by (simp add: serialized_def stored_world_fields sample_records_def sample_dumps_def)
  from t have a: "requests 2 stored_world
      = stored_world\<lparr>threads := threads stored_world @ replicate 2 Created\<rparr>"
    by blast
  have c: "threads (requests 2 stored_world) = [Created, Created]"
    by (subst a) (simp add: stored_world_fields eval_nat_numeral)
  from t have "in_flight (threads (schedule sample_dumps
        (map (\<lambda>t. (t, Buffered)) [length (threads stored_world) ..< length (threads stored_world) + 2])
        (requests 2 stored_world))) = in_flight (threads stored_world) + 2"
    by blast
  then have b: "in_flight (threads (schedule sample_dumps [(0, Buffered), (1, Buffered)]
       (requests 2 stored_world))) = 2"
    unfolding e by simp
  have lt: "(1::nat) < 2"
    by simp
  with t have "payments_file (schedule sample_dumps
          (one_by_one (length (DATA_CACHE stored_world)) Buffered
             [length (threads stored_world) ..< length (threads stored_world) + Suc 1])
          (requests 2 stored_world))
        = Some (Complete (serialized sample_dumps (DATA_CACHE stored_world))) \<and>
      drop (length (threads stored_world)) (threads (schedule sample_dumps
          (one_by_one (length (DATA_CACHE stored_world)) Buffered
             [length (threads stored_world) ..< length (threads stored_world) + Suc 1])
          (requests 2 stored_world)))
        = replicate (Suc 1) Finished @ replicate (2 - Suc 1) Created"
    by blast
  then have d: \<open>payments_file (schedule sample_dumps (one_by_one 2 Buffered [0, 1])
          (requests 2 stored_world))
        = Some (Complete (''{"id": "t1"}'' @ [CHR 0x0A] @ ''{"id": "t2"}'' @ [CHR 0x0A])) \<and>
      threads (schedule sample_dumps (one_by_one 2 Buffered [0, 1]) (requests 2 stored_world))
        = [Finished, Finished]\<close>
    unfolding e ser by simp
  from c b lt d show ?thesis
    by blast
qed

text \<open>
  C5 as stated does not hold: two requests made while one write is in progress start two
  more writers, the three have the file open at the same time, and each runs its own write
  to the end.
\<close>

theorem coalescing_counterexample:
  "threads (requests 2 (thread_step sample_dumps (0, Buffered) (requests 1 stored_world)))
     = [Writing 0 [] True, Created, Created] \<and>
   in_flight (threads (schedule sample_dumps [(1, Buffered), (2, Buffered)]
       (requests 2 (thread_step sample_dumps (0, Buffered) (requests 1 stored_world))))) = 3 \<and>
   threads (schedule sample_dumps
       (replicate 3 (0, Buffered) @ replicate 4 (1, Buffered) @ replicate 4 (2, Buffered))
       (requests 2 (thread_step sample_dumps (0, Buffered) (requests 1 stored_world))))
     = [Finished, Finished, Finished]"
  by (simp add: writer_eval)




end
